theory Spec2Isabelle
  imports Main "HOL-Library.Word" "HOL-Library.Sublist"
begin

section \<open>The base stream endpoint of genio (genio\_base.c)\<close>

text \<open>
  The endpoint composes a lower-level transport (LL) and an optional filter. Both, the
  operating-system services and the user's callbacks are outside genio\_base.c: the
  model reaches them through an environment record, keeps their state in one abstract
  component \<open>ext\<close>, and writes every call the endpoint makes into a trace, together
  with the value \<open>ndata->state\<close> had when the call was made.
\<close>

subsection \<open>Data\<close>

datatype basen_state =
    BASEN_CLOSED
  | BASEN_IN_LL_OPEN
  | BASEN_IN_FILTER_OPEN
  | BASEN_OPEN
  | BASEN_CLOSE_WAIT_DRAIN
  | BASEN_IN_FILTER_CLOSE
  | BASEN_IN_LL_CLOSE

text \<open>The errno values the file uses come from the system's errno.h; these are Linux's.\<close>

abbreviation EBADF :: int where "EBADF \<equiv> 9"
abbreviation EAGAIN :: int where "EAGAIN \<equiv> 11"
abbreviation EBUSY :: int where "EBUSY \<equiv> 16"
abbreviation ECOMM :: int where "ECOMM \<equiv> 70"
abbreviation ETIMEDOUT :: int where "ETIMEDOUT \<equiv> 110"
abbreviation EINPROGRESS :: int where "EINPROGRESS \<equiv> 115"

text \<open>
  A \<open>void *\<close> is the integer it holds, \<open>NULL\<close> being 0. A pointer to a user function
  (\<open>open_done\<close>, \<open>close_done\<close>) is \<open>None\<close> when \<open>NULL\<close>. A buffer argument
  \<open>(buf, buflen)\<close> is \<open>None\<close> for \<open>(NULL, 0)\<close> and \<open>Some bs\<close> for \<open>buflen = length bs\<close>
  bytes. A \<open>struct timeval\<close> is its pair of fields.
\<close>

type_synonym ptr = int
type_synonym fn = nat
type_synonym buf = "8 word list option"
type_synonym timeval = "int \<times> int"

text \<open>The two functions genio\_base.c hands to the LL's close as its completion.\<close>

datatype ll_close_done = basen_ll_close_done_fn | basen_ll_close_on_err_fn

text \<open>
  Every call that leaves genio\_base.c. In the write calls the boolean says whether the
  \<open>rcount\<close> pointer passed is non-\<open>NULL\<close>.
\<close>

datatype call =
    OsZalloc
  | OsAllocLock
  | OsAllocTimer
  | OsAllocRunner
  | LlSetCallbacks
  | FltSetCallbacks
  | OsLock
  | OsUnlock
  | OsStartTimer timeval
  | OsRun
  | OsStopTimerWithDone
  | OsFreeLock
  | OsFreeTimer
  | OsFreeRunner
  | OsFree
  | LlWrite bool buf
  | LlOpen
  | LlClose ll_close_done ptr
  | LlSetReadCallbackEnable bool
  | LlSetWriteCallbackEnable bool
  | LlFree
  | FltSetup
  | FltCleanup
  | FltCheckOpenDone
  | FltTryConnect
  | FltTryDisconnect
  | FltUlWrite bool buf
  | FltLlWrite bool buf
  | FltLlUrgent
  | FltTimeout
  | FltFree
  | UsrReadCallback int buf
  | UsrWriteCallback
  | UsrUrgentCallback
  | UsrOpenDone fn int ptr
  | UsrCloseDone fn ptr

text \<open>
  What a call gives back: its \<open>int\<close> return value, the count it stored through
  \<open>rcount\<close> (or returned, for the user's read callback), the timeout it stored, and
  the pointer it returned (the allocators).
\<close>

record ret =
  r_err :: int
  r_count :: "32 word"
  r_tv :: timeval
  r_ptr :: ptr

text \<open>
  How a run can stop short: a failed \<open>assert\<close> (the file includes assert.h and does not
  define \<open>NDEBUG\<close>), a \<open>NULL\<close> pointer used, the structure used after its release.
  \<open>OutOfFuel\<close> is the model's: the retry loop of \<open>basen_deferred_op\<close> is run with
  fuel.
\<close>

datatype fault = AssertFailed | NullDeref | UseAfterFree | OutOfFuel

text \<open>
  \<open>struct basen_data\<close>. \<open>has_filter\<close> is \<open>ndata->filter != NULL\<close>; \<open>cbs\<close> is
  \<open>ndata->net.cbs\<close>, \<open>None\<close> when \<open>NULL\<close>, and \<open>Some u\<close> with \<open>u\<close> telling whether its
  \<open>urgent_callback\<close> is set; \<open>self\<close> is the address of the structure, what the
  expression \<open>ndata\<close> evaluates to; \<open>lock_p\<close>, \<open>timer_p\<close>, \<open>runner_p\<close> and
  \<open>ll_p\<close> tell whether the pointer of that name is non-\<open>NULL\<close>.

  The last five fields are the model's: the state of everything outside the file, the
  trace, the fault that stopped the run, whether \<open>basen_finish_free\<close> has released the
  structure, and the completion the LL holds from a close that answered
  \<open>EINPROGRESS\<close>.
\<close>

record 'x basen_data =
  lock_p :: bool
  timer_p :: bool
  runner_p :: bool
  ll_p :: bool
  has_filter :: bool
  cbs :: "bool option"
  self :: ptr
  refcount :: "32 word"
  freeref :: "32 word"
  state :: basen_state
  open_done :: "fn option"
  open_data :: ptr
  close_done :: "fn option"
  close_data :: ptr
  read_enabled :: bool
  in_read :: bool
  xmit_enabled :: bool
  tmp_xmit_enabled :: bool
  saved_xmit_err :: int
  ll_err_occurred :: bool
  deferred_op_pending :: bool
  deferred_read :: bool
  deferred_open :: bool
  deferred_close :: bool
  ext :: 'x
  trace :: "(basen_state \<times> call) list"
  fault :: "fault option"
  freed :: bool
  ll_close_wait :: "(ll_close_done \<times> ptr) option"

text \<open>
  The environment. \<open>ext_call\<close> answers the calls made while the lock is held (OS, LL
  and filter operations): they see and change \<open>ext\<close> only. The three pending
  predicates are the filter's queries. \<open>usr_call\<close> answers the calls made with the lock
  dropped (the user's callbacks and the filter's timeout hook): the callee may call
  back into the endpoint, so it may change every field. \<open>flt_ll_write\<close> is the
  filter's \<open>ll_write\<close>, which is given the handler to deliver to.
\<close>

type_synonym 'x handler = "bool \<Rightarrow> buf \<Rightarrow> 'x basen_data \<Rightarrow> ret \<times> 'x basen_data"

record 'x env =
  ext_call :: "call \<Rightarrow> 'x \<Rightarrow> ret \<times> 'x"
  ul_read_pending :: "'x \<Rightarrow> bool"
  ll_write_pending :: "'x \<Rightarrow> bool"
  ll_read_needed :: "'x \<Rightarrow> bool"
  has_timeout :: bool
  usr_call :: "call \<Rightarrow> 'x basen_data \<Rightarrow> ret \<times> 'x basen_data"
  flt_ll_write :: "'x handler \<Rightarrow> bool \<Rightarrow> buf \<Rightarrow> 'x basen_data \<Rightarrow> ret \<times> 'x basen_data"

definition ret0 :: ret where
  "ret0 = \<lparr>r_err = 0, r_count = 0, r_tv = (0, 0), r_ptr = 0\<rparr>"

subsection \<open>Calls out of the file\<close>

definition call_ext :: "'x env \<Rightarrow> call \<Rightarrow> 'x basen_data \<Rightarrow> ret \<times> 'x basen_data" where
  "call_ext E c s =
     (let (r, x) = ext_call E c (ext s)
      in (r, s\<lparr>ext := x, trace := trace s @ [(state s, c)]\<rparr>))"

text \<open>
  A call made with the lock dropped. The trace records the call itself; what the callee
  does by calling back into the endpoint shows in the fields it leaves, not in the
  caller's trace.
\<close>

definition call_unlocked :: "'x env \<Rightarrow> call \<Rightarrow> 'x basen_data \<Rightarrow> ret \<times> 'x basen_data" where
  "call_unlocked E c s =
     (let (r, s') = usr_call E c s
      in (r, s'\<lparr>self := self s, trace := trace s @ [(state s, c)], fault := fault s\<rparr>))"

definition basen_lock :: "'x env \<Rightarrow> 'x basen_data \<Rightarrow> 'x basen_data" where
  "basen_lock E s = snd (call_ext E OsLock s)"

definition basen_unlock :: "'x env \<Rightarrow> 'x basen_data \<Rightarrow> 'x basen_data" where
  "basen_unlock E s = snd (call_ext E OsUnlock s)"

definition basen_ref :: "'x basen_data \<Rightarrow> 'x basen_data" where
  "basen_ref s = s\<lparr>refcount := refcount s + 1\<rparr>"

definition filter_ul_read_pending :: "'x env \<Rightarrow> 'x basen_data \<Rightarrow> bool" where
  "filter_ul_read_pending E s = (if has_filter s then ul_read_pending E (ext s) else False)"

definition filter_ll_write_pending :: "'x env \<Rightarrow> 'x basen_data \<Rightarrow> bool" where
  "filter_ll_write_pending E s = (if has_filter s then ll_write_pending E (ext s) else False)"

definition filter_ll_read_needed :: "'x env \<Rightarrow> 'x basen_data \<Rightarrow> bool" where
  "filter_ll_read_needed E s = (if has_filter s then ll_read_needed E (ext s) else False)"

text \<open>\<open>timeout\<close> is \<open>{0, 0}\<close> at both call sites; the filter may store into it.\<close>

definition filter_try_disconnect ::
  "'x env \<Rightarrow> 'x basen_data \<Rightarrow> (int \<times> timeval) \<times> 'x basen_data" where
  "filter_try_disconnect E s =
     (if has_filter s
      then (let (r, s1) = call_ext E FltTryDisconnect s in ((r_err r, r_tv r), s1))
      else ((0, (0, 0)), s))"

definition ll_set_read_callback_enable :: "'x env \<Rightarrow> bool \<Rightarrow> 'x basen_data \<Rightarrow> 'x basen_data" where
  "ll_set_read_callback_enable E enable s = snd (call_ext E (LlSetReadCallbackEnable enable) s)"

definition ll_set_write_callback_enable :: "'x env \<Rightarrow> bool \<Rightarrow> 'x basen_data \<Rightarrow> 'x basen_data" where
  "ll_set_write_callback_enable E enable s = snd (call_ext E (LlSetWriteCallbackEnable enable) s)"

definition basen_sched_deferred_op :: "'x env \<Rightarrow> 'x basen_data \<Rightarrow> 'x basen_data" where
  "basen_sched_deferred_op E s =
     (if \<not> deferred_op_pending s
      then snd (call_ext E OsRun (basen_ref (s\<lparr>deferred_op_pending := True\<rparr>)))
      else s)"

text \<open>
  \<open>ll_close\<close> passes \<open>ndata\<close> to the LL where its own \<open>close_data\<close> parameter would go:
  the parameter is not used.
\<close>

definition ll_close :: "'x env \<Rightarrow> ll_close_done \<Rightarrow> ptr \<Rightarrow> 'x basen_data \<Rightarrow> 'x basen_data" where
  "ll_close E done close_data_arg s =
     (let (r, s1) = call_ext E (LlClose done (self s)) s
      in if r_err r = EINPROGRESS
         then basen_ref (s1\<lparr>ll_close_wait := Some (done, self s)\<rparr>)
         else basen_sched_deferred_op E (s1\<lparr>deferred_close := True\<rparr>))"

definition basen_set_ll_enables :: "'x env \<Rightarrow> 'x basen_data \<Rightarrow> 'x basen_data" where
  "basen_set_ll_enables E s =
     (let s1 = (if filter_ll_write_pending E s \<or> xmit_enabled s \<or> tmp_xmit_enabled s
                then ll_set_write_callback_enable E True s else s)
      in if ((((read_enabled s1 \<and> \<not> filter_ul_read_pending E s1)
                \<or> filter_ll_read_needed E s1) \<and> state s1 = BASEN_OPEN)
              \<or> state s1 = BASEN_IN_FILTER_OPEN
              \<or> state s1 = BASEN_IN_FILTER_CLOSE)
            \<and> \<not> in_read s1
         then ll_set_read_callback_enable E True s1 else s1)"

definition basen_try_close :: "'x env \<Rightarrow> 'x basen_data \<Rightarrow> 'x basen_data" where
  "basen_try_close E s =
     (let s1 = ll_set_write_callback_enable E False s;
          s2 = ll_set_read_callback_enable E False s1;
          ((err, timeout), s3) = filter_try_disconnect E s2
      in if err = EINPROGRESS then s3
         else if err = EAGAIN then snd (call_ext E (OsStartTimer timeout) s3)
         else ll_close E basen_ll_close_done_fn 0 (s3\<lparr>state := BASEN_IN_LL_CLOSE\<rparr>))"

definition basen_i_close ::
  "'x env \<Rightarrow> fn option \<Rightarrow> ptr \<Rightarrow> 'x basen_data \<Rightarrow> 'x basen_data" where
  "basen_i_close E close_done_arg close_data_arg s =
     (let s1 = s\<lparr>close_done := close_done_arg, close_data := close_data_arg\<rparr>;
          s2 = (if ll_err_occurred s1
                then ll_close E basen_ll_close_done_fn 0 (s1\<lparr>state := BASEN_IN_LL_CLOSE\<rparr>)
                else if filter_ll_write_pending E s1
                then s1\<lparr>state := BASEN_CLOSE_WAIT_DRAIN\<rparr>
                else basen_try_close E (s1\<lparr>state := BASEN_IN_FILTER_CLOSE\<rparr>))
      in basen_set_ll_enables E s2)"


subsection \<open>Reference counting and release\<close>

text \<open>Once a run has stopped on a fault, nothing after it is executed.\<close>

definition on_ok :: "'x basen_data \<Rightarrow> ('x basen_data \<Rightarrow> 'x basen_data) \<Rightarrow> 'x basen_data" where
  "on_ok s f = (if fault s = None then f s else s)"

definition basen_deref :: "'x basen_data \<Rightarrow> 'x basen_data" where
  "basen_deref s =
     (if 1 < refcount s then s\<lparr>refcount := refcount s - 1\<rparr>
      else s\<lparr>fault := Some AssertFailed\<rparr>)"

definition filter_free :: "'x env \<Rightarrow> 'x basen_data \<Rightarrow> 'x basen_data" where
  "filter_free E s = (if has_filter s then snd (call_ext E FltFree s) else s)"

definition basen_finish_free :: "'x env \<Rightarrow> 'x basen_data \<Rightarrow> 'x basen_data" where
  "basen_finish_free E s =
     (let s1 = (if lock_p s then snd (call_ext E OsFreeLock s) else s);
          s2 = (if timer_p s1 then snd (call_ext E OsFreeTimer s1) else s1);
          s3 = (if runner_p s2 then snd (call_ext E OsFreeRunner s2) else s2);
          s4 = filter_free E s3;
          s5 = (if ll_p s4 then snd (call_ext E LlFree s4) else s4);
          s6 = snd (call_ext E OsFree s5)
      in s6\<lparr>freed := True\<rparr>)"

definition basen_timer_stopped :: "'x env \<Rightarrow> 'x basen_data \<Rightarrow> 'x basen_data" where
  "basen_timer_stopped E s = basen_finish_free E s"

definition basen_deref_and_unlock :: "'x env \<Rightarrow> 'x basen_data \<Rightarrow> 'x basen_data" where
  "basen_deref_and_unlock E s =
     (if 0 < refcount s
      then (let s1 = s\<lparr>refcount := refcount s - 1\<rparr>;
                count = refcount s1;
                s2 = basen_unlock E s1
            in if count = 0
               then (if timer_p s2
                     then (let (r, s3) = call_ext E OsStopTimerWithDone s2
                           in if r_err r \<noteq> ETIMEDOUT then s3 else basen_finish_free E s3)
                     else basen_finish_free E s2)
               else s2)
      else s\<lparr>fault := Some AssertFailed\<rparr>)"

subsection \<open>The filter and LL wrappers\<close>

definition filter_check_open_done :: "'x env \<Rightarrow> 'x basen_data \<Rightarrow> int \<times> 'x basen_data" where
  "filter_check_open_done E s =
     (if has_filter s
      then (let (r, s1) = call_ext E FltCheckOpenDone s in (r_err r, s1))
      else (0, s))"

definition filter_try_connect ::
  "'x env \<Rightarrow> 'x basen_data \<Rightarrow> (int \<times> timeval) \<times> 'x basen_data" where
  "filter_try_connect E s =
     (if has_filter s
      then (let (r, s1) = call_ext E FltTryConnect s in ((r_err r, r_tv r), s1))
      else ((0, (0, 0)), s))"

text \<open>
  The filter's \<open>ul_write\<close> reaches the LL through the handler it is given, which is
  \<open>basen_write_data_handler\<close> at both call sites and touches nothing of the endpoint:
  the filter's call, with the LL writes it drives, is one operation on \<open>ext\<close>.
\<close>

definition filter_ul_write ::
  "'x env \<Rightarrow> 'x handler \<Rightarrow> bool \<Rightarrow> buf \<Rightarrow> 'x basen_data \<Rightarrow> ret \<times> 'x basen_data" where
  "filter_ul_write E handler rcount b s =
     (if has_filter s then call_ext E (FltUlWrite rcount b) s
      else handler rcount b s)"

text \<open>
  The filter's \<open>ll_write\<close> is called with the lock dropped and delivers through the
  handler, which reads the endpoint and calls the user.
\<close>

definition filter_ll_write ::
  "'x env \<Rightarrow> 'x handler \<Rightarrow> bool \<Rightarrow> buf \<Rightarrow> 'x basen_data \<Rightarrow> ret \<times> 'x basen_data" where
  "filter_ll_write E handler rcount b s =
     (if has_filter s
      then flt_ll_write E handler rcount b (s\<lparr>trace := trace s @ [(state s, FltLlWrite rcount b)]\<rparr>)
      else handler rcount b s)"

definition filter_ll_urgent :: "'x env \<Rightarrow> 'x basen_data \<Rightarrow> 'x basen_data" where
  "filter_ll_urgent E s =
     (if has_filter s then snd (call_ext E FltLlUrgent s)
      else (case cbs s of
              None \<Rightarrow> s\<lparr>fault := Some NullDeref\<rparr>
            | Some u \<Rightarrow> if u then snd (call_unlocked E UsrUrgentCallback s) else s))"

definition filter_setup :: "'x env \<Rightarrow> 'x basen_data \<Rightarrow> int \<times> 'x basen_data" where
  "filter_setup E s =
     (if has_filter s
      then (let (r, s1) = call_ext E FltSetup s in (r_err r, s1))
      else (0, s))"

definition filter_cleanup :: "'x env \<Rightarrow> 'x basen_data \<Rightarrow> 'x basen_data" where
  "filter_cleanup E s = (if has_filter s then snd (call_ext E FltCleanup s) else s)"

definition ll_write :: "'x env \<Rightarrow> 'x handler" where
  "ll_write E rcount b s = call_ext E (LlWrite rcount b) s"

definition ll_open :: "'x env \<Rightarrow> 'x basen_data \<Rightarrow> int \<times> 'x basen_data" where
  "ll_open E s = (let (r, s1) = call_ext E LlOpen s in (r_err r, s1))"

subsection \<open>Writing and delivering\<close>

definition basen_write_data_handler :: "'x env \<Rightarrow> 'x handler" where
  "basen_write_data_handler E rcount b s = ll_write E rcount b s"

text \<open>
  \<open>basen_write\<close> returns its error and what was stored through \<open>rcount\<close>:
  \<open>None\<close> when nothing was.
\<close>

definition basen_write ::
  "'x env \<Rightarrow> bool \<Rightarrow> buf \<Rightarrow> 'x basen_data \<Rightarrow> (int \<times> 32 word option) \<times> 'x basen_data" where
  "basen_write E rcount b s =
     (let s1 = basen_lock E s;
          (res, s2) =
            (if state s1 \<noteq> BASEN_OPEN then ((EBADF, None), s1)
             else if saved_xmit_err s1 \<noteq> 0
             then ((saved_xmit_err s1, None), s1\<lparr>saved_xmit_err := 0\<rparr>)
             else (let (r, s') = filter_ul_write E (basen_write_data_handler E) rcount b s1
                   in ((r_err r, if rcount then Some (r_count r) else None), s')))
      in (res, basen_unlock E (basen_set_ll_enables E s2)))"

text \<open>
  The handler stores the count through \<open>rcount\<close> on both paths; with a \<open>NULL\<close>
  \<open>rcount\<close> or a \<open>NULL\<close> \<open>cbs\<close> the run stops.
\<close>

definition basen_read_data_handler :: "'x env \<Rightarrow> 'x handler" where
  "basen_read_data_handler E rcount b s =
     (if state s \<noteq> BASEN_OPEN \<or> \<not> read_enabled s
      then (if rcount then (ret0, s) else (ret0, s\<lparr>fault := Some NullDeref\<rparr>))
      else if cbs s = None then (ret0, s\<lparr>fault := Some NullDeref\<rparr>)
      else (let (r, s1) = call_unlocked E (UsrReadCallback 0 b) s
            in if rcount then (ret0\<lparr>r_count := r_count r\<rparr>, s1)
               else (ret0, s1\<lparr>fault := Some NullDeref\<rparr>)))"

subsection \<open>Opening and closing\<close>

definition basen_finish_close :: "'x env \<Rightarrow> 'x basen_data \<Rightarrow> 'x basen_data" where
  "basen_finish_close E s =
     (let s1 = (filter_cleanup E s)\<lparr>state := BASEN_CLOSED\<rparr>
      in case close_done s1 of
           None \<Rightarrow> s1
         | Some f \<Rightarrow>
             basen_lock E (snd (call_unlocked E (UsrCloseDone f (close_data s1))
                                  (basen_unlock E s1))))"

definition basen_finish_open :: "'x env \<Rightarrow> int \<Rightarrow> 'x basen_data \<Rightarrow> 'x basen_data" where
  "basen_finish_open E err s =
     (let s1 = (if err \<noteq> 0 then filter_cleanup E (s\<lparr>state := BASEN_CLOSED\<rparr>)
                else s\<lparr>state := BASEN_OPEN\<rparr>)
      in case open_done s1 of
           None \<Rightarrow> s1
         | Some f \<Rightarrow>
             basen_lock E (snd (call_unlocked E (UsrOpenDone f err (open_data s1))
                                  (basen_unlock E s1))))"

definition basen_ll_close_done :: "'x env \<Rightarrow> ptr \<Rightarrow> 'x basen_data \<Rightarrow> 'x basen_data" where
  "basen_ll_close_done E close_data_arg s =
     basen_deref_and_unlock E (basen_finish_close E (basen_lock E s))"

text \<open>\<open>(long) close_data\<close> is passed for an \<open>int\<close>: the low 32 bits, read as signed.\<close>

definition long_to_int :: "ptr \<Rightarrow> int" where
  "long_to_int p = sint (word_of_int p :: 32 word)"

definition basen_ll_close_on_err :: "'x env \<Rightarrow> ptr \<Rightarrow> 'x basen_data \<Rightarrow> 'x basen_data" where
  "basen_ll_close_on_err E close_data_arg s =
     basen_deref_and_unlock E
       (basen_finish_open E (long_to_int close_data_arg) (basen_lock E s))"

definition basen_try_connect :: "'x env \<Rightarrow> 'x basen_data \<Rightarrow> 'x basen_data" where
  "basen_try_connect E s =
     (if state s \<noteq> BASEN_IN_FILTER_OPEN then s\<lparr>fault := Some AssertFailed\<rparr>
      else
        (let s1 = ll_set_write_callback_enable E False s;
             s2 = ll_set_read_callback_enable E False s1;
             ((err, timeout), s3) = filter_try_connect E s2
         in if err = EINPROGRESS then s3
            else if err = EAGAIN then snd (call_ext E (OsStartTimer timeout) s3)
            else (let (err', s4) = (if err = 0 then filter_check_open_done E s3 else (err, s3))
                  in if err' \<noteq> 0
                     then ll_close E basen_ll_close_on_err_fn err'
                            (s4\<lparr>state := BASEN_IN_LL_CLOSE\<rparr>)
                     else basen_finish_open E 0 s4)))"

definition basen_ll_open_done :: "'x env \<Rightarrow> int \<Rightarrow> 'x basen_data \<Rightarrow> 'x basen_data" where
  "basen_ll_open_done E err s =
     (let s1 = basen_lock E s;
          s2 = (if err \<noteq> 0 then basen_finish_open E err s1
                else on_ok (basen_try_connect E (s1\<lparr>state := BASEN_IN_FILTER_OPEN\<rparr>))
                       (basen_set_ll_enables E))
      in on_ok s2 (basen_deref_and_unlock E))"

definition basen_open ::
  "'x env \<Rightarrow> fn option \<Rightarrow> ptr \<Rightarrow> 'x basen_data \<Rightarrow> int \<times> 'x basen_data" where
  "basen_open E open_done_arg open_data_arg s =
     (let s1 = basen_lock E s
      in if state s1 = BASEN_CLOSED
         then (let (err, s2) = filter_setup E s1
               in if err \<noteq> 0 then (err, basen_unlock E s2)
                  else (let s3 = s2\<lparr>in_read := False, deferred_read := False,
                                      deferred_open := False, deferred_close := False,
                                      read_enabled := False, xmit_enabled := False,
                                      open_done := open_done_arg, open_data := open_data_arg\<rparr>;
                            (err, s4) = ll_open E s3
                        in if err = 0
                           then (0, basen_unlock E
                                      (basen_sched_deferred_op E
                                         (s4\<lparr>state := BASEN_IN_FILTER_OPEN,
                                              deferred_open := True\<rparr>)))
                           else if err = EINPROGRESS
                           then (0, basen_unlock E (basen_ref (s4\<lparr>state := BASEN_IN_LL_OPEN\<rparr>)))
                           else (err, basen_unlock E (filter_cleanup E s4))))
         else (EBUSY, basen_unlock E s1))"

definition basen_close ::
  "'x env \<Rightarrow> fn option \<Rightarrow> ptr \<Rightarrow> 'x basen_data \<Rightarrow> int \<times> 'x basen_data" where
  "basen_close E close_done_arg close_data_arg s =
     (let s1 = basen_lock E s
      in if state s1 \<noteq> BASEN_OPEN
         then (if state s1 = BASEN_IN_FILTER_OPEN \<or> state s1 = BASEN_IN_LL_OPEN
               then (0, on_ok (basen_deref (basen_i_close E close_done_arg close_data_arg s1))
                          (basen_unlock E))
               else (EBUSY, basen_unlock E s1))
         else (0, basen_unlock E (basen_i_close E close_done_arg close_data_arg s1)))"

definition basen_free :: "'x env \<Rightarrow> 'x basen_data \<Rightarrow> 'x basen_data" where
  "basen_free E s =
     (let s1 = basen_lock E s
      in if \<not> 0 < freeref s1 then s1\<lparr>fault := Some AssertFailed\<rparr>
         else (let s2 = s1\<lparr>freeref := freeref s1 - 1\<rparr>
               in if 0 < freeref s2 then basen_unlock E s2
                  else (let s3 =
                          (if state s2 = BASEN_IN_FILTER_CLOSE \<or> state s2 = BASEN_IN_LL_CLOSE
                           then s2\<lparr>close_done := None\<rparr>
                           else if state s2 = BASEN_IN_FILTER_OPEN \<or> state s2 = BASEN_IN_LL_OPEN
                           then basen_deref (basen_i_close E None 0 s2)
                           else if state s2 \<noteq> BASEN_CLOSED
                           then basen_i_close E None 0 s2
                           else s2)
                        in on_ok s3 (basen_deref_and_unlock E))))"

definition basen_do_ref :: "'x env \<Rightarrow> 'x basen_data \<Rightarrow> 'x basen_data" where
  "basen_do_ref E s =
     (let s1 = basen_lock E s in basen_unlock E (s1\<lparr>freeref := freeref s1 + 1\<rparr>))"


subsection \<open>The deferred operations\<close>

text \<open>
  One pass through the body of \<open>basen_deferred_op\<close> from the label \<open>retry\<close>: the
  state it reaches, and whether it jumps back to \<open>retry\<close> (otherwise it goes on to
  \<open>out_unlock\<close>).
\<close>

definition deferred_pass :: "'x env \<Rightarrow> 'x basen_data \<Rightarrow> bool \<times> 'x basen_data" where
  "deferred_pass E s =
     (let s1 = (if deferred_open s then basen_try_connect E (s\<lparr>deferred_open := False\<rparr>)
                else s)
      in if fault s1 \<noteq> None then (False, s1)
         else
          (let s2 = (if deferred_close s1
                     then basen_finish_close E (s1\<lparr>deferred_close := False\<rparr>) else s1)
           in if deferred_read s2 \<and> state s2 \<noteq> BASEN_OPEN then (False, s2)
              else
               (let s3 =
                  (if deferred_read s2
                   then (let t1 = basen_unlock E (s2\<lparr>deferred_read := False\<rparr>);
                             (r, t2) = filter_ll_write E (basen_read_data_handler E) False None t1
                         in on_ok t2 (\<lambda>t. (basen_lock E t)\<lparr>in_read := False\<rparr>))
                   else s2)
                in if fault s3 \<noteq> None then (False, s3)
                   else (deferred_read s3 \<or> deferred_open s3 \<or> deferred_close s3, s3))))"

text \<open>The loop, one pass per unit of fuel. The result is the state at \<open>out_unlock\<close>.\<close>

fun deferred_ops :: "'x env \<Rightarrow> nat \<Rightarrow> 'x basen_data \<Rightarrow> 'x basen_data" where
  "deferred_ops E 0 s = s\<lparr>fault := Some OutOfFuel\<rparr>"
| "deferred_ops E (Suc n) s =
     (let (again, s') = deferred_pass E s
      in if again then deferred_ops E n s' else s')"

definition basen_deferred_op :: "'x env \<Rightarrow> nat \<Rightarrow> 'x basen_data \<Rightarrow> 'x basen_data" where
  "basen_deferred_op E n s =
     on_ok (deferred_ops E n (basen_lock E s))
       (\<lambda>t. basen_deref_and_unlock E
               (basen_set_ll_enables E (t\<lparr>deferred_op_pending := False\<rparr>)))"

subsection \<open>Timer and enables\<close>

text \<open>
  \<open>basen_timeout\<close> reads \<open>ndata->filter_ops->timeout\<close> in state \<open>BASEN_OPEN\<close>;
  \<open>filter_ops\<close> is \<open>NULL\<close> when there is no filter.
\<close>

definition basen_timeout :: "'x env \<Rightarrow> 'x basen_data \<Rightarrow> 'x basen_data" where
  "basen_timeout E s =
     (let s1 = basen_lock E s;
          s2 = (case state s1 of
                  BASEN_IN_FILTER_OPEN \<Rightarrow> basen_try_connect E s1
                | BASEN_IN_FILTER_CLOSE \<Rightarrow> basen_try_close E s1
                | BASEN_OPEN \<Rightarrow>
                    (if \<not> has_filter s1 then s1\<lparr>fault := Some NullDeref\<rparr>
                     else if has_timeout E
                     then basen_lock E (snd (call_unlocked E FltTimeout (basen_unlock E s1)))
                     else s1)
                | _ \<Rightarrow> s1)
      in on_ok s2 (\<lambda>t. basen_unlock E (basen_set_ll_enables E t)))"

definition basen_set_read_callback_enable ::
  "'x env \<Rightarrow> bool \<Rightarrow> 'x basen_data \<Rightarrow> 'x basen_data" where
  "basen_set_read_callback_enable E enabled s =
     (let s1 = basen_lock E s
      in if state s1 = BASEN_CLOSED \<or> state s1 = BASEN_IN_FILTER_CLOSE
            \<or> state s1 = BASEN_IN_LL_CLOSE
         then basen_unlock E s1
         else
          (let s2 = s1\<lparr>read_enabled := enabled\<rparr>;
               read_pending = filter_ul_read_pending E s2;
               s3 = (if in_read s2 \<or> state s2 = BASEN_IN_FILTER_OPEN
                        \<or> state s2 = BASEN_IN_LL_OPEN \<or> (read_pending \<and> \<not> enabled)
                     then s2
                     else if read_pending
                     then basen_sched_deferred_op E (s2\<lparr>in_read := True, deferred_read := True\<rparr>)
                     else basen_set_ll_enables E s2)
           in basen_unlock E s3))"

definition basen_set_write_callback_enable ::
  "'x env \<Rightarrow> bool \<Rightarrow> 'x basen_data \<Rightarrow> 'x basen_data" where
  "basen_set_write_callback_enable E enabled s =
     (let s1 = basen_lock E s
      in if state s1 = BASEN_CLOSED \<or> state s1 = BASEN_IN_FILTER_CLOSE
            \<or> state s1 = BASEN_IN_LL_CLOSE
         then basen_unlock E s1
         else basen_unlock E
                (if xmit_enabled s1 \<noteq> enabled
                 then basen_set_ll_enables E (s1\<lparr>xmit_enabled := enabled\<rparr>)
                 else s1))"

subsection \<open>The callbacks given to the LL\<close>

definition buflen_of :: "buf \<Rightarrow> nat" where
  "buflen_of b = (case b of None \<Rightarrow> 0 | Some bs \<Rightarrow> length bs)"

text \<open>
  \<open>basen_ll_read\<close> returns \<open>buf - ibuf\<close>: the count the filter stored in \<open>wrlen\<close>, or 0.
\<close>

definition basen_ll_read ::
  "'x env \<Rightarrow> int \<Rightarrow> buf \<Rightarrow> 'x basen_data \<Rightarrow> 32 word \<times> 'x basen_data" where
  "basen_ll_read E readerr ibuf s =
     (let s1 = ll_set_read_callback_enable E False (basen_lock E s)
      in if readerr \<noteq> 0
         then
          (let s2 = s1\<lparr>read_enabled := False, ll_err_occurred := True\<rparr>;
               s3 = (if state s2 = BASEN_IN_FILTER_OPEN \<or> state s2 = BASEN_IN_LL_OPEN
                     then ll_close E basen_ll_close_on_err_fn ECOMM
                            (s2\<lparr>state := BASEN_IN_LL_CLOSE\<rparr>)
                     else if state s2 = BASEN_CLOSE_WAIT_DRAIN
                             \<or> state s2 = BASEN_IN_FILTER_CLOSE
                     then ll_close E basen_ll_close_done_fn 0
                            (s2\<lparr>state := BASEN_IN_LL_CLOSE\<rparr>)
                     else if cbs s2 \<noteq> None
                     then basen_lock E
                            (snd (call_unlocked E (UsrReadCallback readerr None)
                                    (basen_unlock E s2)))
                     else basen_i_close E None 0 s2)
           in (0, basen_unlock E (basen_set_ll_enables E s3)))
         else if in_read s1 then (0, basen_unlock E s1)
         else if 0 < buflen_of ibuf
         then
          (let t1 = basen_unlock E (s1\<lparr>in_read := True\<rparr>);
               (r, t2) = filter_ll_write E (basen_read_data_handler E) True ibuf t1
           in if fault t2 \<noteq> None then (0, t2)
              else
               (let t3 = (basen_lock E t2)\<lparr>in_read := False\<rparr>;
                    t4 = (if state t3 = BASEN_IN_FILTER_OPEN then basen_try_connect E t3 else t3);
                    t5 = (if state t4 = BASEN_IN_FILTER_CLOSE then basen_try_close E t4 else t4)
                in (r_count r, basen_unlock E (basen_set_ll_enables E t5))))
         else (0, basen_unlock E (basen_set_ll_enables E s1)))"

text \<open>
  \<open>basen_ll_write_ready\<close> up to the test that decides whether the user's write
  callback is called: the flush, the end of the drain and the handshake steps.
\<close>

definition basen_ll_write_ready_head :: "'x env \<Rightarrow> 'x basen_data \<Rightarrow> 'x basen_data" where
  "basen_ll_write_ready_head E s =
     (let s1 = ll_set_write_callback_enable E False (basen_lock E s);
          s2 = (if filter_ll_write_pending E s1
                then (let (r, s') = filter_ul_write E (basen_write_data_handler E) False None s1
                      in if r_err r \<noteq> 0 then s'\<lparr>saved_xmit_err := r_err r\<rparr> else s')
                else s1);
          s3 = (if state s2 = BASEN_CLOSE_WAIT_DRAIN \<and> \<not> filter_ll_write_pending E s2
                then s2\<lparr>state := BASEN_IN_FILTER_CLOSE\<rparr> else s2);
          s4 = (if state s3 = BASEN_IN_FILTER_OPEN then basen_try_connect E s3 else s3)
      in if state s4 = BASEN_IN_FILTER_CLOSE then basen_try_close E s4 else s4)"

definition basen_ll_write_ready :: "'x env \<Rightarrow> 'x basen_data \<Rightarrow> 'x basen_data" where
  "basen_ll_write_ready E s =
     (let s5 = basen_ll_write_ready_head E s;
          s6 = (if state s5 \<noteq> BASEN_IN_FILTER_OPEN \<and> \<not> filter_ll_write_pending E s5
                   \<and> xmit_enabled s5
                then (if cbs s5 = None then s5\<lparr>fault := Some NullDeref\<rparr>
                      else basen_lock E
                             (snd (call_unlocked E UsrWriteCallback (basen_unlock E s5))))
                else s5)
      in on_ok s6
           (\<lambda>t. basen_unlock E (basen_set_ll_enables E (t\<lparr>tmp_xmit_enabled := False\<rparr>))))"

definition basen_ll_urgent :: "'x env \<Rightarrow> 'x basen_data \<Rightarrow> 'x basen_data" where
  "basen_ll_urgent E s = filter_ll_urgent E s"

subsection \<open>The callbacks given to the filter\<close>

definition basen_output_ready :: "'x env \<Rightarrow> 'x basen_data \<Rightarrow> 'x basen_data" where
  "basen_output_ready E s = ll_set_write_callback_enable E True s"

definition basen_start_timer :: "'x env \<Rightarrow> timeval \<Rightarrow> 'x basen_data \<Rightarrow> 'x basen_data" where
  "basen_start_timer E timeout s =
     (let s1 = basen_lock E s;
          s2 = (if state s1 = BASEN_OPEN then snd (call_ext E (OsStartTimer timeout) s1) else s1)
      in basen_unlock E s2)"


subsection \<open>Allocation\<close>

text \<open>The structure as \<open>zalloc\<close> returns it: every field zero.\<close>

definition zeroed :: "'x \<Rightarrow> 'x basen_data" where
  "zeroed x =
     \<lparr>lock_p = False, timer_p = False, runner_p = False, ll_p = False, has_filter = False,
      cbs = None, self = 0, refcount = 0, freeref = 0, state = BASEN_CLOSED,
      open_done = None, open_data = 0, close_done = None, close_data = 0,
      read_enabled = False, in_read = False, xmit_enabled = False, tmp_xmit_enabled = False,
      saved_xmit_err = 0, ll_err_occurred = False, deferred_op_pending = False,
      deferred_read = False, deferred_open = False, deferred_close = False,
      ext = x, trace = [], fault = None, freed = False, ll_close_wait = None\<rparr>"

text \<open>
  \<open>genio_alloc\<close>, started on the outside world \<open>x\<close>. \<open>Inr\<close> is the endpoint returned,
  \<open>Inl\<close> what is left when \<open>NULL\<close> is returned.
\<close>

definition genio_alloc ::
  "'x env \<Rightarrow> 'x \<Rightarrow> bool \<Rightarrow> bool \<Rightarrow> fn option \<Rightarrow> ptr \<Rightarrow> bool option
     \<Rightarrow> 'x basen_data + 'x basen_data" where
  "genio_alloc E x flt is_client open_done_arg open_data_arg cbs_arg =
     (let (r0, s0) = call_ext E OsZalloc (zeroed x)
      in if r_ptr r0 = 0 then Inl s0
         else
          (let s1 = s0\<lparr>self := r_ptr r0, refcount := 1, freeref := 1\<rparr>;
               (r1, s2) = call_ext E OsAllocLock s1
           in if r_ptr r1 = 0 then Inl (basen_finish_free E s2)
              else
               (let (r2, s3) = call_ext E OsAllocTimer (s2\<lparr>lock_p := True\<rparr>)
                in if r_ptr r2 = 0 then Inl (basen_finish_free E s3)
                   else
                    (let (r3, s4) = call_ext E OsAllocRunner (s3\<lparr>timer_p := True\<rparr>)
                     in if r_ptr r3 = 0 then Inl (basen_finish_free E s4)
                        else
                         (let s5 = s4\<lparr>runner_p := True, ll_p := True, has_filter := flt\<rparr>;
                              s6 = (if flt then snd (call_ext E FltSetCallbacks s5) else s5);
                              s7 = snd (call_ext E LlSetCallbacks (s6\<lparr>cbs := cbs_arg\<rparr>))
                          in if is_client then Inr (s7\<lparr>state := BASEN_CLOSED\<rparr>)
                             else
                              (let (err, s8) = filter_setup E s7
                               in if err \<noteq> 0 then Inl (basen_finish_free E s8)
                                  else Inr (basen_set_ll_enables E
                                              (s8\<lparr>open_done := open_done_arg,
                                                   open_data := open_data_arg,
                                                   state := BASEN_IN_FILTER_OPEN,
                                                   tmp_xmit_enabled := True\<rparr>))))))))"

definition base_genio_alloc :: "'x env \<Rightarrow> 'x \<Rightarrow> bool \<Rightarrow> bool option \<Rightarrow> 'x basen_data + 'x basen_data" where
  "base_genio_alloc E x flt cbs_arg = genio_alloc E x flt True None 0 cbs_arg"

definition base_genio_server_alloc ::
  "'x env \<Rightarrow> 'x \<Rightarrow> bool \<Rightarrow> fn option \<Rightarrow> ptr \<Rightarrow> 'x basen_data + 'x basen_data" where
  "base_genio_server_alloc E x flt open_done_arg open_data_arg =
     genio_alloc E x flt False open_done_arg open_data_arg None"

subsection \<open>Events\<close>

text \<open>
  What can happen to an endpoint: a call of the user API, a callback from the LL, the
  timer, the runner or the filter. Nothing runs after a fault, and any use of a released
  structure is one.
\<close>

datatype event =
    UWrite bool buf
  | UOpen "fn option" ptr
  | UClose "fn option" ptr
  | UFree
  | URef
  | USetReadCallbackEnable bool
  | USetWriteCallbackEnable bool
  | LLRead int buf
  | LLWriteReady
  | LLUrgent
  | LLOpenDone int
  | LLCloseDone
  | TimerFired
  | TimerStopped
  | RunDeferred
  | FltOutputReady
  | FltStartTimer timeval

text \<open>
  Modelled from the spec: the LL's completion of a close that answered in-progress (the LL
  implementations are outside genio\_base.c). By the LL interface the close
  \<open>completes later via done_cb\<close>: the LL calls the function it was given, with the
  data it was given, once.
\<close>

definition ll_complete_close :: "'x env \<Rightarrow> 'x basen_data \<Rightarrow> 'x basen_data" where
  "ll_complete_close E s =
     (case ll_close_wait s of
        None \<Rightarrow> s
      | Some (done, p) \<Rightarrow>
          (case done of
             basen_ll_close_done_fn \<Rightarrow> basen_ll_close_done E p (s\<lparr>ll_close_wait := None\<rparr>)
           | basen_ll_close_on_err_fn \<Rightarrow> basen_ll_close_on_err E p (s\<lparr>ll_close_wait := None\<rparr>)))"

definition fire :: "'x env \<Rightarrow> nat \<Rightarrow> event \<Rightarrow> 'x basen_data \<Rightarrow> 'x basen_data" where
  "fire E n ev s =
     (if fault s \<noteq> None then s
      else if freed s then s\<lparr>fault := Some UseAfterFree\<rparr>
      else (case ev of
              UWrite rcount b \<Rightarrow> snd (basen_write E rcount b s)
            | UOpen f p \<Rightarrow> snd (basen_open E f p s)
            | UClose f p \<Rightarrow> snd (basen_close E f p s)
            | UFree \<Rightarrow> basen_free E s
            | URef \<Rightarrow> basen_do_ref E s
            | USetReadCallbackEnable b \<Rightarrow> basen_set_read_callback_enable E b s
            | USetWriteCallbackEnable b \<Rightarrow> basen_set_write_callback_enable E b s
            | LLRead readerr b \<Rightarrow> snd (basen_ll_read E readerr b s)
            | LLWriteReady \<Rightarrow> basen_ll_write_ready E s
            | LLUrgent \<Rightarrow> basen_ll_urgent E s
            | LLOpenDone err \<Rightarrow> basen_ll_open_done E err s
            | LLCloseDone \<Rightarrow> ll_complete_close E s
            | TimerFired \<Rightarrow> basen_timeout E s
            | TimerStopped \<Rightarrow> basen_timer_stopped E s
            | RunDeferred \<Rightarrow> basen_deferred_op E n s
            | FltOutputReady \<Rightarrow> basen_output_ready E s
            | FltStartTimer tv \<Rightarrow> basen_start_timer E tv s))"

fun run :: "'x env \<Rightarrow> nat \<Rightarrow> event list \<Rightarrow> 'x basen_data \<Rightarrow> 'x basen_data" where
  "run E n [] s = s"
| "run E n (ev # evs) s = run E n evs (fire E n ev s)"

subsection \<open>What the specification says and what a call adds to the trace\<close>

text \<open>The calls a function added to the trace of \<open>s\<close> to reach \<open>s'\<close>.\<close>

definition added :: "'x basen_data \<Rightarrow> 'x basen_data \<Rightarrow> call list" where
  "added s s' = map snd (drop (length (trace s)) (trace s'))"

definition added_at :: "'x basen_data \<Rightarrow> 'x basen_data \<Rightarrow> (basen_state \<times> call) list" where
  "added_at s s' = drop (length (trace s)) (trace s')"

text \<open>
  The enable rules in the specification's words: LL write is wanted when the filter has
  LL-bound bytes pending or \<open>xmit_enabled\<close> or \<open>tmp_xmit_enabled\<close>; LL read is wanted
  when \<open>in_read\<close> is false and either the state is Open and (\<open>read_enabled\<close> and no
  UL-pending bytes, or the filter signals \<open>ll_read_needed\<close>), or the state is
  OpeningFilter or ClosingFilter.
\<close>

definition spec_ll_write_wanted :: "'x env \<Rightarrow> 'x basen_data \<Rightarrow> bool" where
  "spec_ll_write_wanted E s \<longleftrightarrow>
     filter_ll_write_pending E s \<or> xmit_enabled s \<or> tmp_xmit_enabled s"

definition spec_ll_read_wanted :: "'x env \<Rightarrow> 'x basen_data \<Rightarrow> bool" where
  "spec_ll_read_wanted E s \<longleftrightarrow>
     \<not> in_read s \<and>
     ((state s = BASEN_OPEN \<and>
         ((read_enabled s \<and> \<not> filter_ul_read_pending E s) \<or> filter_ll_read_needed E s))
      \<or> state s \<in> {BASEN_IN_FILTER_OPEN, BASEN_IN_FILTER_CLOSE})"

text \<open>
  \<open>calls_in S s s'\<close>: the trace of \<open>s'\<close> continues that of \<open>s\<close>, with calls from
  \<open>S\<close> only.
\<close>

definition calls_in :: "call set \<Rightarrow> 'x basen_data \<Rightarrow> 'x basen_data \<Rightarrow> bool" where
  "calls_in S s s' \<longleftrightarrow> prefix (trace s) (trace s') \<and> set (added s s') \<subseteq> S"

text \<open>The answer \<open>basen_try_close\<close> gets from the filter's \<open>try_disconnect\<close>.\<close>

definition disconnect_answer :: "'x env \<Rightarrow> 'x basen_data \<Rightarrow> int" where
  "disconnect_answer E s =
     fst (fst (filter_try_disconnect E
                 (ll_set_read_callback_enable E False (ll_set_write_callback_enable E False s))))"

text \<open>The calls that run user code, and what it means that a set allows every other call.\<close>

fun is_usr :: "call \<Rightarrow> bool" where
  "is_usr (UsrReadCallback e b) = True"
| "is_usr UsrWriteCallback = True"
| "is_usr UsrUrgentCallback = True"
| "is_usr (UsrOpenDone f e p) = True"
| "is_usr (UsrCloseDone f p) = True"
| "is_usr c = False"

definition sys_calls :: "call set \<Rightarrow> bool" where
  "sys_calls S \<longleftrightarrow> (\<forall>c. \<not> is_usr c \<longrightarrow> c \<in> S)"

text \<open>The calls of the user's \<open>open_done\<close>, and the set of all other calls.\<close>

fun is_open_done :: "call \<Rightarrow> bool" where
  "is_open_done (UsrOpenDone f e p) = True"
| "is_open_done c = False"

definition no_open_done :: "call set" where
  "no_open_done = {c. \<not> is_open_done c}"

text \<open>
  The LL holds \<open>basen_ll_close_on_err\<close> as the completion of a close: the close of an
  open that failed is still outstanding.
\<close>

definition on_err_waiting :: "'x basen_data \<Rightarrow> bool" where
  "on_err_waiting s =
     (case ll_close_wait s of
        None \<Rightarrow> False
      | Some (done, p) \<Rightarrow> done = basen_ll_close_on_err_fn)"

text \<open>
  What holds from an accepted close on, as long as nothing opens the endpoint again: the
  state is not an opening one and no close of a failed open is outstanding.
\<close>

definition closing_inv :: "'x basen_data \<Rightarrow> bool" where
  "closing_inv s \<longleftrightarrow>
     state s \<noteq> BASEN_IN_FILTER_OPEN \<and> state s \<noteq> BASEN_IN_LL_OPEN \<and> \<not> on_err_waiting s"

text \<open>\<open>quiet s t\<close>: \<open>t\<close> satisfies that and, since \<open>s\<close>, \<open>open_done\<close> has not been called.\<close>

definition quiet :: "'x basen_data \<Rightarrow> 'x basen_data \<Rightarrow> bool" where
  "quiet s t \<longleftrightarrow> closing_inv t \<and> calls_in no_open_done s t"

text \<open>
  What the property asks of the code that runs with the lock dropped: the user's
  callbacks and the filter's timeout hook, if they call back into the endpoint, do not
  bring it into an opening state; and the filter's \<open>ll_write\<close> does to the endpoint
  only what the handler it is given does.
\<close>

definition env_quiet :: "'x env \<Rightarrow> bool" where
  "env_quiet E \<longleftrightarrow>
     (\<forall>c t. closing_inv t \<longrightarrow> closing_inv (snd (usr_call E c t)))
     \<and> (\<forall>h rcount b s t.
           (\<forall>rcount' b' u. quiet s u \<longrightarrow> quiet s (snd (h rcount' b' u)))
           \<longrightarrow> quiet s t \<longrightarrow> quiet s (snd (flt_ll_write E h rcount b t)))"

text \<open>The events other than a new user open and the LL's open-done callback.\<close>

fun ev_ok :: "event \<Rightarrow> bool" where
  "ev_ok (UOpen f p) = False"
| "ev_ok (LLOpenDone err) = False"
| "ev_ok ev = True"

subsection \<open>Concrete environments and endpoints\<close>

text \<open>
  An environment in which every call answers 0 (the allocators a non-\<open>NULL\<close> pointer)
  and changes nothing, and the filter delivers what it is given straight to the handler.
\<close>

definition quiet_env :: "unit env" where
  "quiet_env =
     \<lparr>ext_call = (\<lambda>c x. (ret0\<lparr>r_ptr := 4096\<rparr>, x)),
      ul_read_pending = (\<lambda>x. False),
      ll_write_pending = (\<lambda>x. False),
      ll_read_needed = (\<lambda>x. False),
      has_timeout = False,
      usr_call = (\<lambda>c s. (ret0, s)),
      flt_ll_write = (\<lambda>h rcount b s. h rcount b s)\<rparr>"


text \<open>
  A client endpoint as \<open>base_genio_alloc\<close> leaves it, with callbacks installed, and the
  same endpoint in any given state.
\<close>

definition client_ep :: "unit basen_data" where
  "client_ep =
     (zeroed ())\<lparr>lock_p := True, timer_p := True, runner_p := True, ll_p := True,
                  cbs := Some False, self := 4096, refcount := 1, freeref := 1\<rparr>"

definition ep_in :: "basen_state \<Rightarrow> unit basen_data" where
  "ep_in st = client_ep\<lparr>state := st\<rparr>"

text \<open>
  An environment whose handshakes and LL open and close are still in progress at every
  call, and one whose filter always has LL-bound bytes pending.
\<close>

fun slow_answer :: "call \<Rightarrow> int" where
  "slow_answer FltTryConnect = EINPROGRESS"
| "slow_answer FltTryDisconnect = EINPROGRESS"
| "slow_answer LlOpen = EINPROGRESS"
| "slow_answer (LlClose d p) = EINPROGRESS"
| "slow_answer c = 0"

definition slow_env :: "unit env" where
  "slow_env = quiet_env\<lparr>ext_call := (\<lambda>c x. (ret0\<lparr>r_err := slow_answer c, r_ptr := 4096\<rparr>, x))\<rparr>"

definition pending_env :: "unit env" where
  "pending_env = quiet_env\<lparr>ll_write_pending := (\<lambda>x. True)\<rparr>"

text \<open>
  A client endpoint whose LL open is in progress, and the same after a user close.
\<close>

definition opening_ep :: "unit basen_data" where
  "opening_ep = snd (basen_open slow_env (Some 7) 0 client_ep)"

definition closed_early :: "unit basen_data" where
  "closed_early = snd (basen_close slow_env (Some 9) 0 opening_ep)"

section \<open>Properties\<close>

subsection \<open>Calls and traces\<close>

lemma call_ext_eq:
  "call_ext E c s = (fst (ext_call E c (ext s)),
       s\<lparr>ext := snd (ext_call E c (ext s)), trace := trace s @ [(state s, c)]\<rparr>)"
  by (simp add: call_ext_def split: prod.splits)

lemma call_unlocked_eq:
  "call_unlocked E c s = (fst (usr_call E c s),
       (snd (usr_call E c s))\<lparr>self := self s, trace := trace s @ [(state s, c)],
                                fault := fault s\<rparr>)"
  by (simp add: call_unlocked_def split: prod.splits)

lemmas leaf_defs = basen_lock_def basen_unlock_def ll_set_write_callback_enable_def
  ll_set_read_callback_enable_def call_ext_eq

lemmas query_defs = filter_ll_write_pending_def filter_ul_read_pending_def
  filter_ll_read_needed_def

lemma added_append: "trace s' = trace s @ l \<Longrightarrow> added s s' = map snd l"
  by (simp add: added_def)

lemma added_at_append: "trace s' = trace s @ l \<Longrightarrow> added_at s s' = l"
  by (simp add: added_at_def)

lemma added_map: "added s s' = map snd (added_at s s')"
  by (simp add: added_def added_at_def)

lemma added_at_split:
  assumes "prefix (trace s) (trace s')" "prefix (trace s') (trace s'')"
  shows "added_at s s'' = added_at s s' @ added_at s' s''"
  using assms by (auto simp: prefix_def added_at_def)

lemma calls_in_refl: "calls_in S s s"
  by (simp add: calls_in_def added_def)

lemma calls_in_same_trace: "trace s' = trace s \<Longrightarrow> calls_in S s s'"
  by (simp add: calls_in_def added_def)

lemma calls_in_trans:
  assumes "calls_in S s s'" "calls_in S s' s''"
  shows "calls_in S s s''"
proof -
  from assms obtain l1 l2 where l: "trace s' = trace s @ l1" "trace s'' = trace s' @ l2"
    by (auto simp: calls_in_def prefix_def)
  then have "trace s'' = trace s @ (l1 @ l2)" by simp
  with l assms show ?thesis
    by (auto simp: calls_in_def added_append)
qed

lemma calls_in_mono: "calls_in S s s' \<Longrightarrow> S \<subseteq> T \<Longrightarrow> calls_in T s s'"
  by (auto simp: calls_in_def)

lemma calls_in_start: "calls_in S s s' \<Longrightarrow> trace t = trace s \<Longrightarrow> calls_in S t s'"
  by (simp add: calls_in_def added_def)

lemma calls_in_call_ext: "c \<in> S \<Longrightarrow> calls_in S s (snd (call_ext E c s))"
  by (simp add: calls_in_def call_ext_eq added_def)

subsection \<open>The enable arbiter\<close>

lemma set_ll_enables_trace:
  "trace (basen_set_ll_enables E s) = trace s
     @ (if spec_ll_write_wanted E s then [(state s, LlSetWriteCallbackEnable True)] else [])
     @ (if spec_ll_read_wanted E (if spec_ll_write_wanted E s
            then ll_set_write_callback_enable E True s else s)
        then [(state s, LlSetReadCallbackEnable True)] else [])"
  by (simp add: basen_set_ll_enables_def spec_ll_write_wanted_def spec_ll_read_wanted_def
      Let_def leaf_defs query_defs)


lemma set_ll_enables_added:
  "set (added s (basen_set_ll_enables E s))
     \<subseteq> {LlSetWriteCallbackEnable True, LlSetReadCallbackEnable True}"
  by (auto simp: added_def set_ll_enables_trace)



subsection \<open>Enabling callbacks on a closed or closing endpoint\<close>

text \<open>
  C10. In the states Closed, ClosingFilter and ClosingLL both
  \<open>set_read_callback_enable\<close> and \<open>set_write_callback_enable\<close> only take and release
  the lock: no field of the endpoint changes and nothing else is called.
\<close>

theorem set_callback_enable_noop_when_closed:
  assumes "state s \<in> {BASEN_CLOSED, BASEN_IN_FILTER_CLOSE, BASEN_IN_LL_CLOSE}"
  shows "basen_set_read_callback_enable E enabled s = basen_unlock E (basen_lock E s)
    \<and> basen_set_write_callback_enable E enabled s = basen_unlock E (basen_lock E s)
    \<and> (basen_set_read_callback_enable E enabled s)\<lparr>ext := ext s, trace := trace s\<rparr> = s
    \<and> (basen_set_write_callback_enable E enabled s)\<lparr>ext := ext s, trace := trace s\<rparr> = s
    \<and> added s (basen_set_read_callback_enable E enabled s) = [OsLock, OsUnlock]
    \<and> added s (basen_set_write_callback_enable E enabled s) = [OsLock, OsUnlock]"
  using assms
  by (auto simp: basen_set_read_callback_enable_def basen_set_write_callback_enable_def
      Let_def leaf_defs added_def)

theorem set_callback_enable_noop_when_closed_witness:
  "state (ep_in BASEN_IN_LL_CLOSE) \<in> {BASEN_CLOSED, BASEN_IN_FILTER_CLOSE, BASEN_IN_LL_CLOSE}
   \<and> (basen_set_read_callback_enable quiet_env True (ep_in BASEN_IN_LL_CLOSE))
        \<lparr>ext := ext (ep_in BASEN_IN_LL_CLOSE), trace := trace (ep_in BASEN_IN_LL_CLOSE)\<rparr>
      = ep_in BASEN_IN_LL_CLOSE
   \<and> added (ep_in BASEN_IN_LL_CLOSE)
        (basen_set_write_callback_enable quiet_env True (ep_in BASEN_IN_LL_CLOSE))
      = [OsLock, OsUnlock]"
proof -
  have h: "state (ep_in BASEN_IN_LL_CLOSE)
             \<in> {BASEN_CLOSED, BASEN_IN_FILTER_CLOSE, BASEN_IN_LL_CLOSE}"
    by (simp add: ep_in_def)
  show ?thesis
    using h set_callback_enable_noop_when_closed [OF h, of quiet_env True]
    by blast
qed

subsection \<open>Writing\<close>

lemma write_not_open:
  assumes "state s \<noteq> BASEN_OPEN"
  shows "basen_write E rcount b s
           = ((EBADF, None), basen_unlock E (basen_set_ll_enables E (basen_lock E s)))"
  using assms by (simp add: basen_write_def Let_def leaf_defs)

lemma lock_enables_unlock_trace:
  "trace (basen_unlock E (basen_set_ll_enables E (basen_lock E s))) =
     trace s @ (state s, OsLock)
       # added_at (basen_lock E s) (basen_set_ll_enables E (basen_lock E s))
       @ [(state s, OsUnlock)]"
  by (simp add: set_ll_enables_trace added_at_def basen_set_ll_enables_def Let_def leaf_defs)

lemma lock_enables_unlock_frame:
  "(basen_unlock E (basen_set_ll_enables E (basen_lock E s)))\<lparr>ext := ext s, trace := trace s\<rparr> = s"
  by (simp add: basen_set_ll_enables_def Let_def leaf_defs)

lemma lock_enables_unlock_added:
  "set (added s (basen_unlock E (basen_set_ll_enables E (basen_lock E s))))
     \<subseteq> {OsLock, OsUnlock, LlSetWriteCallbackEnable True, LlSetReadCallbackEnable True}"
  using set_ll_enables_added[of "basen_lock E s" E]
  by (auto simp: lock_enables_unlock_trace added_def added_at_def)

text \<open>
  C7. A user write on an endpoint that is not Open returns \<open>EBADF\<close>, stores no count,
  calls neither the filter's \<open>ul_write\<close> nor the LL's write (it takes the lock, runs
  the enable arbiter and releases the lock), and changes no field of the endpoint.
\<close>

theorem write_not_open_is_ebadf:
  assumes "state s \<noteq> BASEN_OPEN"
  shows "fst (basen_write E rcount b s) = (EBADF, None)
    \<and> FltUlWrite rc' b' \<notin> set (added s (snd (basen_write E rcount b s)))
    \<and> LlWrite rc' b' \<notin> set (added s (snd (basen_write E rcount b s)))
    \<and> set (added s (snd (basen_write E rcount b s)))
         \<subseteq> {OsLock, OsUnlock, LlSetWriteCallbackEnable True, LlSetReadCallbackEnable True}
    \<and> (snd (basen_write E rcount b s))\<lparr>ext := ext s, trace := trace s\<rparr> = s"
  using lock_enables_unlock_added[of s E]
  by (auto simp: write_not_open[OF assms] lock_enables_unlock_frame)

theorem write_not_open_is_ebadf_witness:
  "state (ep_in BASEN_CLOSE_WAIT_DRAIN) \<noteq> BASEN_OPEN
   \<and> fst (basen_write quiet_env True (Some [1, 2, 3]) (ep_in BASEN_CLOSE_WAIT_DRAIN))
       = (EBADF, None)
   \<and> LlWrite True (Some [1, 2, 3])
       \<notin> set (added (ep_in BASEN_CLOSE_WAIT_DRAIN)
                (snd (basen_write quiet_env True (Some [1, 2, 3]) (ep_in BASEN_CLOSE_WAIT_DRAIN))))"
proof -
  have h: "state (ep_in BASEN_CLOSE_WAIT_DRAIN) \<noteq> BASEN_OPEN"
    by (simp add: ep_in_def)
  show ?thesis
    using h write_not_open_is_ebadf [OF h, of quiet_env True "Some [1, 2, 3]" True "Some [1, 2, 3]"]
    by simp
qed

lemma write_saved_err:
  assumes "state s = BASEN_OPEN" "saved_xmit_err s \<noteq> 0"
  shows "basen_write E rcount b s
           = ((saved_xmit_err s, None),
              basen_unlock E (basen_set_ll_enables E ((basen_lock E s)\<lparr>saved_xmit_err := 0\<rparr>)))"
  using assms by (simp add: basen_write_def Let_def leaf_defs)

lemma write_through:
  assumes "state s = BASEN_OPEN" "saved_xmit_err s = 0"
  shows "basen_write E rcount b s
           = (let r = fst (ext_call E (if has_filter s then FltUlWrite rcount b else LlWrite rcount b)
                             (ext (basen_lock E s)));
                  s' = snd (call_ext E (if has_filter s then FltUlWrite rcount b else LlWrite rcount b)
                             (basen_lock E s))
              in ((r_err r, if rcount then Some (r_count r) else None),
                  basen_unlock E (basen_set_ll_enables E s')))"
  using assms
  by (simp add: basen_write_def Let_def leaf_defs filter_ul_write_def
      basen_write_data_handler_def ll_write_def)

lemma enables_fields:
  "state (basen_set_ll_enables E s) = state s"
  "saved_xmit_err (basen_set_ll_enables E s) = saved_xmit_err s"
  "has_filter (basen_set_ll_enables E s) = has_filter s"
  by (simp_all add: basen_set_ll_enables_def Let_def leaf_defs)

lemma unlock_fields:
  "state (basen_unlock E s) = state s"
  "saved_xmit_err (basen_unlock E s) = saved_xmit_err s"
  "has_filter (basen_unlock E s) = has_filter s"
  "trace (basen_unlock E s) = trace s @ [(state s, OsUnlock)]"
  by (simp_all add: leaf_defs)

lemma lock_fields:
  "state (basen_lock E s) = state s"
  "saved_xmit_err (basen_lock E s) = saved_xmit_err s"
  "has_filter (basen_lock E s) = has_filter s"
  "trace (basen_lock E s) = trace s @ [(state s, OsLock)]"
  by (simp_all add: leaf_defs)

lemma calls_in_enables:
  "LlSetWriteCallbackEnable True \<in> S \<Longrightarrow> LlSetReadCallbackEnable True \<in> S
     \<Longrightarrow> calls_in S s (basen_set_ll_enables E s)"
  using set_ll_enables_added[of s E]
  by (auto simp: calls_in_def set_ll_enables_trace)

lemma calls_in_lock: "OsLock \<in> S \<Longrightarrow> calls_in S s (basen_lock E s)"
  by (simp add: basen_lock_def calls_in_call_ext)

lemma calls_in_unlock: "OsUnlock \<in> S \<Longrightarrow> calls_in S s (basen_unlock E s)"
  by (simp add: basen_unlock_def calls_in_call_ext)


text \<open>
  Where the saved error comes from: in the LL write-ready callback on an Open endpoint, a
  flush of the filter's pending bytes that fails leaves its error in \<open>saved_xmit_err\<close>.
\<close>

lemma write_ready_saves_flush_error:
  fixes E :: "'x env" and s :: "'x basen_data"
  defines "s1 \<equiv> ll_set_write_callback_enable E False (basen_lock E s)"
  assumes "state s = BASEN_OPEN" and "filter_ll_write_pending E s1"
      and "r_err (fst (filter_ul_write E (basen_write_data_handler E) False None s1)) \<noteq> 0"
  shows "saved_xmit_err (basen_ll_write_ready_head E s)
           = r_err (fst (filter_ul_write E (basen_write_data_handler E) False None s1))"
    and "state (basen_ll_write_ready_head E s) = BASEN_OPEN"
  using assms(2-)
  unfolding s1_def
  by (simp_all add: basen_ll_write_ready_head_def Let_def filter_ul_write_def
      basen_write_data_handler_def ll_write_def leaf_defs split: prod.splits if_splits)

text \<open>
  C5. With the endpoint Open and a nonzero \<open>saved_xmit_err\<close>, a user write returns that
  error, stores no count, calls neither the filter nor the LL write, and clears
  \<open>saved_xmit_err\<close>; the state stays Open, so a second write goes through to the
  filter (or, without one, to the LL) and returns that call's answer, and
  \<open>saved_xmit_err\<close> stays 0.
\<close>

theorem saved_xmit_err_returned_once:
  fixes E :: "'x env" and s :: "'x basen_data" and rcount rcount2 :: bool and b b2 :: buf
  assumes "state s = BASEN_OPEN" and "saved_xmit_err s \<noteq> 0"
  defines "s1 \<equiv> snd (basen_write E rcount b s)"
  defines "c2 \<equiv> (if has_filter s then FltUlWrite rcount2 b2 else LlWrite rcount2 b2)"
  shows "fst (basen_write E rcount b s) = (saved_xmit_err s, None)
    \<and> set (added s s1)
         \<subseteq> {OsLock, OsUnlock, LlSetWriteCallbackEnable True, LlSetReadCallbackEnable True}
    \<and> saved_xmit_err s1 = 0 \<and> state s1 = BASEN_OPEN
    \<and> fst (fst (basen_write E rcount2 b2 s1))
         = r_err (fst (ext_call E c2 (ext (basen_lock E s1))))
    \<and> c2 \<in> set (added s1 (snd (basen_write E rcount2 b2 s1)))
    \<and> saved_xmit_err (snd (basen_write E rcount2 b2 s1)) = 0"
proof -
  let ?S = "{OsLock, OsUnlock, LlSetWriteCallbackEnable True, LlSetReadCallbackEnable True}"
  have s1: "s1 = basen_unlock E (basen_set_ll_enables E ((basen_lock E s)\<lparr>saved_xmit_err := 0\<rparr>))"
    by (simp add: s1_def write_saved_err[OF assms(1,2)])
  have a: "calls_in ?S s ((basen_lock E s)\<lparr>saved_xmit_err := 0\<rparr>)"
    using calls_in_lock[of ?S s E] by (simp add: calls_in_def added_def)
  have "calls_in ?S s s1"
    unfolding s1
    by (rule calls_in_trans[OF a], rule calls_in_trans[OF calls_in_enables calls_in_unlock]) simp_all
  then have added: "set (added s s1) \<subseteq> ?S" by (simp add: calls_in_def)
  have f: "saved_xmit_err s1 = 0" "state s1 = BASEN_OPEN" "has_filter s1 = has_filter s"
    using assms(1) by (simp_all add: s1 unlock_fields enables_fields lock_fields)
  have w2: "basen_write E rcount2 b2 s1
           = (let r = fst (ext_call E c2 (ext (basen_lock E s1)));
                  s' = snd (call_ext E c2 (basen_lock E s1))
              in ((r_err r, if rcount2 then Some (r_count r) else None),
                  basen_unlock E (basen_set_ll_enables E s')))"
    using write_through[OF f(2) f(1), of E rcount2 b2] by (simp add: c2_def f)
  have tr: "c2 \<in> set (added s1 (snd (basen_write E rcount2 b2 s1)))"
    by (simp add: w2 Let_def added_def unlock_fields set_ll_enables_trace call_ext_eq lock_fields)
  have sv: "saved_xmit_err (snd (basen_write E rcount2 b2 s1)) = 0"
    by (simp add: w2 Let_def unlock_fields enables_fields call_ext_eq lock_fields f)
  show ?thesis
    using added f tr sv by (simp add: write_saved_err[OF assms(1,2)] w2 Let_def)
qed

theorem saved_xmit_err_returned_once_witness:
  "state (ep_in BASEN_OPEN\<lparr>saved_xmit_err := 32\<rparr>) = BASEN_OPEN
   \<and> saved_xmit_err (ep_in BASEN_OPEN\<lparr>saved_xmit_err := 32\<rparr>) \<noteq> 0
   \<and> fst (basen_write quiet_env True (Some [7]) (ep_in BASEN_OPEN\<lparr>saved_xmit_err := 32\<rparr>))
       = (32, None)
   \<and> fst (fst (basen_write quiet_env True (Some [8])
                   (snd (basen_write quiet_env True (Some [7])
                           (ep_in BASEN_OPEN\<lparr>saved_xmit_err := 32\<rparr>))))) = 0"
proof -
  have h1: "state (ep_in BASEN_OPEN\<lparr>saved_xmit_err := 32\<rparr>) = BASEN_OPEN"
    by (simp add: ep_in_def)
  have h2: "saved_xmit_err (ep_in BASEN_OPEN\<lparr>saved_xmit_err := 32\<rparr>) \<noteq> 0"
    by simp
  show ?thesis
    using h1 saved_xmit_err_returned_once [OF h1 h2, of quiet_env True "Some [7]" True "Some [8]"]
    by (simp add: quiet_env_def ret0_def)
qed

subsection \<open>The read-data handler\<close>

text \<open>
  C9. Called with a valid \<open>rcount\<close>: when the state is not Open or \<open>read_enabled\<close> is
  false, the handler reports 0 bytes, returns 0 and touches nothing, so the user's read
  callback is not called; otherwise (callbacks installed) it calls the user's read
  callback with error 0 and the buffer it was given, and reports the count that call
  returned.
\<close>

theorem read_data_handler_rule:
  assumes "rcount"
  shows "(state s \<noteq> BASEN_OPEN \<or> \<not> read_enabled s \<longrightarrow>
            r_count (fst (basen_read_data_handler E rcount b s)) = 0
          \<and> r_err (fst (basen_read_data_handler E rcount b s)) = 0
          \<and> snd (basen_read_data_handler E rcount b s) = s)
       \<and> (state s = BASEN_OPEN \<and> read_enabled s \<and> cbs s \<noteq> None \<longrightarrow>
            r_count (fst (basen_read_data_handler E rcount b s))
              = r_count (fst (usr_call E (UsrReadCallback 0 b) s))
          \<and> r_err (fst (basen_read_data_handler E rcount b s)) = 0
          \<and> added_at s (snd (basen_read_data_handler E rcount b s))
              = [(BASEN_OPEN, UsrReadCallback 0 b)])"
  using assms
  by (simp add: basen_read_data_handler_def ret0_def call_unlocked_eq added_at_def)


theorem read_data_handler_rule_witness:
  "r_count (fst (basen_read_data_handler quiet_env True (Some [1, 2]) (ep_in BASEN_IN_FILTER_OPEN))) = 0
   \<and> snd (basen_read_data_handler quiet_env True (Some [1, 2]) (ep_in BASEN_IN_FILTER_OPEN))
       = ep_in BASEN_IN_FILTER_OPEN
   \<and> added_at (ep_in BASEN_OPEN\<lparr>read_enabled := True\<rparr>)
        (snd (basen_read_data_handler quiet_env True (Some [1, 2])
                (ep_in BASEN_OPEN\<lparr>read_enabled := True\<rparr>)))
       = [(BASEN_OPEN, UsrReadCallback 0 (Some [1, 2]))]"
  using read_data_handler_rule [of True "ep_in BASEN_IN_FILTER_OPEN" quiet_env "Some [1, 2]"]
    read_data_handler_rule [of True "ep_in BASEN_OPEN\<lparr>read_enabled := True\<rparr>" quiet_env "Some [1, 2]"]
  by (simp add: ep_in_def client_ep_def)

subsection \<open>Starting a close\<close>

lemma sched_props:
  "state (basen_sched_deferred_op E s) = state s"
  "close_done (basen_sched_deferred_op E s) = close_done s"
  "close_data (basen_sched_deferred_op E s) = close_data s"
  "\<exists>l. trace (basen_sched_deferred_op E s) = trace s @ l \<and> (\<forall>x\<in>set l. snd x = OsRun)"
  by (simp_all add: basen_sched_deferred_op_def basen_ref_def call_ext_eq)

lemma ll_close_props:
  "state (ll_close E d a s) = state s"
  "close_done (ll_close E d a s) = close_done s"
  "close_data (ll_close E d a s) = close_data s"
  "\<exists>l. trace (ll_close E d a s) = trace s @ (state s, LlClose d (self s)) # l
        \<and> (\<forall>x\<in>set l. snd x = OsRun)"
  by (simp_all add: ll_close_def basen_sched_deferred_op_def basen_ref_def call_ext_eq Let_def)

lemma try_close_fields:
  "close_done (basen_try_close E s) = close_done s"
  "close_data (basen_try_close E s) = close_data s"
  by (simp_all add: basen_try_close_def Let_def leaf_defs filter_try_disconnect_def
      ll_close_props split: prod.splits)

lemma try_close_state:
  "state (basen_try_close E s)
     = (if disconnect_answer E s = EINPROGRESS \<or> disconnect_answer E s = EAGAIN
        then state s else BASEN_IN_LL_CLOSE)"
  by (simp add: basen_try_close_def disconnect_answer_def Let_def leaf_defs
      filter_try_disconnect_def ll_close_props split: prod.splits)

lemma try_close_trace:
  "\<exists>l. trace (basen_try_close E s)
         = trace s @ (state s, LlSetWriteCallbackEnable False)
             # (state s, LlSetReadCallbackEnable False)
             # (if has_filter s then [(state s, FltTryDisconnect)] else []) @ l
       \<and> (if disconnect_answer E s = EINPROGRESS \<or> disconnect_answer E s = EAGAIN
           then (\<forall>x\<in>set l. snd x \<in> range OsStartTimer)
           else \<exists>l'. l = (BASEN_IN_LL_CLOSE, LlClose basen_ll_close_done_fn (self s)) # l'
                     \<and> (\<forall>x\<in>set l'. snd x = OsRun))"
proof -
  let ?s2 = "ll_set_read_callback_enable E False (ll_set_write_callback_enable E False s)"
  obtain err tv s3 where f: "filter_try_disconnect E ?s2 = ((err, tv), s3)"
    by (metis prod.exhaust)
  have tr3: "trace s3 = trace s @ (state s, LlSetWriteCallbackEnable False)
             # (state s, LlSetReadCallbackEnable False)
             # (if has_filter s then [(state s, FltTryDisconnect)] else [])"
    and self3: "self s3 = self s"
    using f by (auto simp: filter_try_disconnect_def leaf_defs split: if_splits)
  have ans: "disconnect_answer E s = err"
    by (simp add: disconnect_answer_def f)
  have tc: "basen_try_close E s = (if err = EINPROGRESS then s3
         else if err = EAGAIN then snd (call_ext E (OsStartTimer tv) s3)
         else ll_close E basen_ll_close_done_fn 0 (s3\<lparr>state := BASEN_IN_LL_CLOSE\<rparr>))"
    by (simp add: basen_try_close_def Let_def f)
  show ?thesis
  proof (cases "err = EINPROGRESS \<or> err = EAGAIN")
    case True
    then show ?thesis
      by (auto simp: tc ans tr3 call_ext_eq)
  next
    case False
    obtain l' where "trace (ll_close E basen_ll_close_done_fn 0 (s3\<lparr>state := BASEN_IN_LL_CLOSE\<rparr>))
       = trace s3 @ (BASEN_IN_LL_CLOSE, LlClose basen_ll_close_done_fn (self s)) # l'"
       "(\<forall>x\<in>set l'. snd x = OsRun)"
      using ll_close_props(4)[of E basen_ll_close_done_fn 0 "s3\<lparr>state := BASEN_IN_LL_CLOSE\<rparr>"]
      by (auto simp: self3)
    with False show ?thesis
      by (simp add: tc ans tr3)
  qed
qed

lemma enables_more_fields:
  "close_done (basen_set_ll_enables E s) = close_done s"
  "close_data (basen_set_ll_enables E s) = close_data s"
  by (simp_all add: basen_set_ll_enables_def Let_def leaf_defs)

lemma enables_tail:
  "\<exists>l. trace (basen_set_ll_enables E s) = trace s @ l
       \<and> (\<forall>x\<in>set l. snd x \<in> {LlSetWriteCallbackEnable True, LlSetReadCallbackEnable True})"
  by (auto simp: set_ll_enables_trace)

lemma pending_upd:
  "filter_ll_write_pending E (s\<lparr>close_done := cd, close_data := p\<rparr>) = filter_ll_write_pending E s"
  by (simp add: filter_ll_write_pending_def)

lemma i_close_err:
  assumes "ll_err_occurred s"
  shows "state (basen_i_close E cd p s) = BASEN_IN_LL_CLOSE"
    and "hd (added_at s (basen_i_close E cd p s))
           = (BASEN_IN_LL_CLOSE, LlClose basen_ll_close_done_fn (self s))"
    and "FltTryDisconnect \<notin> set (added s (basen_i_close E cd p s))"
proof -
  let ?s1 = "s\<lparr>close_done := cd, close_data := p, state := BASEN_IN_LL_CLOSE\<rparr>"
  let ?s2 = "ll_close E basen_ll_close_done_fn 0 ?s1"
  have ic: "basen_i_close E cd p s = basen_set_ll_enables E ?s2"
    using assms by (simp add: basen_i_close_def Let_def)
  obtain l where l: "trace ?s2 = trace s @ (BASEN_IN_LL_CLOSE, LlClose basen_ll_close_done_fn (self s)) # l"
     "(\<forall>x\<in>set l. snd x = OsRun)"
    using ll_close_props(4)[of E basen_ll_close_done_fn 0 ?s1] by auto
  obtain l2 where l2: "trace (basen_set_ll_enables E ?s2) = trace ?s2 @ l2"
     "(\<forall>x\<in>set l2. snd x \<in> {LlSetWriteCallbackEnable True, LlSetReadCallbackEnable True})"
    using enables_tail[of E ?s2] by auto
  show "state (basen_i_close E cd p s) = BASEN_IN_LL_CLOSE"
    by (simp add: ic enables_fields ll_close_props)
  show "hd (added_at s (basen_i_close E cd p s))
           = (BASEN_IN_LL_CLOSE, LlClose basen_ll_close_done_fn (self s))"
    by (simp add: ic added_at_def l l2)
  show "FltTryDisconnect \<notin> set (added s (basen_i_close E cd p s))"
    using l(2) l2(2) by (auto simp: ic added_def l l2)
qed

lemma i_close_drain:
  assumes "\<not> ll_err_occurred s" "filter_ll_write_pending E s"
  shows "state (basen_i_close E cd p s) = BASEN_CLOSE_WAIT_DRAIN"
    and "LlClose d q \<notin> set (added s (basen_i_close E cd p s))"
    and "FltTryDisconnect \<notin> set (added s (basen_i_close E cd p s))"
proof -
  let ?s2 = "s\<lparr>close_done := cd, close_data := p, state := BASEN_CLOSE_WAIT_DRAIN\<rparr>"
  have ic: "basen_i_close E cd p s = basen_set_ll_enables E ?s2"
    using assms by (simp add: basen_i_close_def Let_def pending_upd)
  obtain l2 where l2: "trace (basen_set_ll_enables E ?s2) = trace ?s2 @ l2"
     "(\<forall>x\<in>set l2. snd x \<in> {LlSetWriteCallbackEnable True, LlSetReadCallbackEnable True})"
    using enables_tail[of E ?s2] by auto
  show "state (basen_i_close E cd p s) = BASEN_CLOSE_WAIT_DRAIN"
    by (simp add: ic enables_fields)
  show "LlClose d q \<notin> set (added s (basen_i_close E cd p s))"
    using l2(2) by (auto simp: ic added_def l2)
  show "FltTryDisconnect \<notin> set (added s (basen_i_close E cd p s))"
    using l2(2) by (auto simp: ic added_def l2)
qed

lemma i_close_filter:
  fixes E :: "'x env" and s :: "'x basen_data" and cd :: "fn option" and p :: ptr
  assumes "\<not> ll_err_occurred s" "\<not> filter_ll_write_pending E s"
  defines "s1 \<equiv> s\<lparr>close_done := cd, close_data := p, state := BASEN_IN_FILTER_CLOSE\<rparr>"
  shows "take 2 (added_at s (basen_i_close E cd p s))
           = [(BASEN_IN_FILTER_CLOSE, LlSetWriteCallbackEnable False),
              (BASEN_IN_FILTER_CLOSE, LlSetReadCallbackEnable False)]"
    and "has_filter s \<Longrightarrow>
           added_at s (basen_i_close E cd p s) ! 2 = (BASEN_IN_FILTER_CLOSE, FltTryDisconnect)"
    and "state (basen_i_close E cd p s)
           = (if disconnect_answer E s1 = EINPROGRESS \<or> disconnect_answer E s1 = EAGAIN
              then BASEN_IN_FILTER_CLOSE else BASEN_IN_LL_CLOSE)"
    and "(LlClose basen_ll_close_done_fn (self s) \<in> set (added s (basen_i_close E cd p s)))
           = (state (basen_i_close E cd p s) = BASEN_IN_LL_CLOSE)"
proof -
  let ?s2 = "basen_try_close E s1"
  have s1f: "state s1 = BASEN_IN_FILTER_CLOSE" "self s1 = self s" "has_filter s1 = has_filter s"
    "trace s1 = trace s"
    by (simp_all add: s1_def)
  have ic: "basen_i_close E cd p s = basen_set_ll_enables E ?s2"
    using assms by (simp add: basen_i_close_def Let_def pending_upd s1_def)
  obtain l where l: "trace ?s2 = trace s @ (BASEN_IN_FILTER_CLOSE, LlSetWriteCallbackEnable False)
             # (BASEN_IN_FILTER_CLOSE, LlSetReadCallbackEnable False)
             # (if has_filter s then [(BASEN_IN_FILTER_CLOSE, FltTryDisconnect)] else []) @ l"
     "if disconnect_answer E s1 = EINPROGRESS \<or> disconnect_answer E s1 = EAGAIN
           then (\<forall>x\<in>set l. snd x \<in> range OsStartTimer)
           else \<exists>l'. l = (BASEN_IN_LL_CLOSE, LlClose basen_ll_close_done_fn (self s)) # l'
                     \<and> (\<forall>x\<in>set l'. snd x = OsRun)"
    using try_close_trace[of E s1] unfolding s1f by blast
  obtain l2 where l2: "trace (basen_set_ll_enables E ?s2) = trace ?s2 @ l2"
     "(\<forall>x\<in>set l2. snd x \<in> {LlSetWriteCallbackEnable True, LlSetReadCallbackEnable True})"
    using enables_tail[of E ?s2] by auto
  have st: "state (basen_i_close E cd p s)
           = (if disconnect_answer E s1 = EINPROGRESS \<or> disconnect_answer E s1 = EAGAIN
              then BASEN_IN_FILTER_CLOSE else BASEN_IN_LL_CLOSE)"
    by (simp add: ic enables_fields try_close_state s1f)
  show "take 2 (added_at s (basen_i_close E cd p s))
           = [(BASEN_IN_FILTER_CLOSE, LlSetWriteCallbackEnable False),
              (BASEN_IN_FILTER_CLOSE, LlSetReadCallbackEnable False)]"
    by (simp add: ic added_at_def l l2)
  show "has_filter s \<Longrightarrow>
           added_at s (basen_i_close E cd p s) ! 2 = (BASEN_IN_FILTER_CLOSE, FltTryDisconnect)"
    by (simp add: ic added_at_def l l2)
  show "state (basen_i_close E cd p s)
           = (if disconnect_answer E s1 = EINPROGRESS \<or> disconnect_answer E s1 = EAGAIN
              then BASEN_IN_FILTER_CLOSE else BASEN_IN_LL_CLOSE)"
    by (rule st)
  show "(LlClose basen_ll_close_done_fn (self s) \<in> set (added s (basen_i_close E cd p s)))
           = (state (basen_i_close E cd p s) = BASEN_IN_LL_CLOSE)"
  proof (cases "disconnect_answer E s1 = EINPROGRESS \<or> disconnect_answer E s1 = EAGAIN")
    case True
    then have a: "\<forall>x\<in>set l. snd x \<in> range OsStartTimer" using l(2) by simp
    have b: "state (basen_i_close E cd p s) = BASEN_IN_FILTER_CLOSE"
      using True by (simp add: st)
    have "LlClose basen_ll_close_done_fn (self s)
            \<notin> set (added s (basen_set_ll_enables E (basen_try_close E s1)))"
      using a l2(2) by (auto simp: added_def l(1) l2(1))
    then show ?thesis
      by (simp add: b) (simp add: ic)
  next
    case False
    then obtain l' where l': "l = (BASEN_IN_LL_CLOSE, LlClose basen_ll_close_done_fn (self s)) # l'"
      using l(2) by auto
    have b: "state (basen_i_close E cd p s) = BASEN_IN_LL_CLOSE"
      using False by (simp add: st)
    have "LlClose basen_ll_close_done_fn (self s)
            \<in> set (added s (basen_set_ll_enables E (basen_try_close E s1)))"
      by (simp add: added_def l(1) l2(1) l')
    then show ?thesis
      by (simp add: b) (simp add: ic)
  qed
qed

lemma i_close_fields:
  "close_done (basen_i_close E cd p s) = cd" "close_data (basen_i_close E cd p s) = p"
  by (simp_all add: basen_i_close_def Let_def enables_more_fields ll_close_props try_close_fields)

text \<open>
  C1. \<open>basen_i_close\<close> stores the completion and then: with \<open>ll_err_occurred\<close> set, sets
  the state to ClosingLL and calls the LL's close first, never the filter's
  \<open>try_disconnect\<close>; otherwise, with LL-bound bytes pending in the filter, sets the
  state to CloseWaitDrain and calls neither the LL's close nor \<open>try_disconnect\<close>;
  otherwise sets the state to ClosingFilter and, in that state, disables both LL
  callbacks and calls the filter's \<open>try_disconnect\<close>. In the last case the state is
  still ClosingFilter on return when the filter answered in-progress or retry, and the
  same call has moved on to ClosingLL, with the LL's close issued, when it answered
  anything else (or there is no filter).
\<close>

theorem basen_i_close_rule:
  fixes E :: "'x env" and s :: "'x basen_data" and cd :: "fn option" and p :: ptr
  defines "s' \<equiv> basen_i_close E cd p s"
  defines "s1 \<equiv> s\<lparr>close_done := cd, close_data := p, state := BASEN_IN_FILTER_CLOSE\<rparr>"
  shows "close_done s' = cd \<and> close_data s' = p
    \<and> (ll_err_occurred s \<longrightarrow>
           state s' = BASEN_IN_LL_CLOSE
         \<and> hd (added_at s s') = (BASEN_IN_LL_CLOSE, LlClose basen_ll_close_done_fn (self s))
         \<and> FltTryDisconnect \<notin> set (added s s'))
    \<and> (\<not> ll_err_occurred s \<and> filter_ll_write_pending E s \<longrightarrow>
           state s' = BASEN_CLOSE_WAIT_DRAIN
         \<and> (\<forall>d q. LlClose d q \<notin> set (added s s'))
         \<and> FltTryDisconnect \<notin> set (added s s'))
    \<and> (\<not> ll_err_occurred s \<and> \<not> filter_ll_write_pending E s \<longrightarrow>
           take 2 (added_at s s')
             = [(BASEN_IN_FILTER_CLOSE, LlSetWriteCallbackEnable False),
                (BASEN_IN_FILTER_CLOSE, LlSetReadCallbackEnable False)]
         \<and> (has_filter s \<longrightarrow> added_at s s' ! 2 = (BASEN_IN_FILTER_CLOSE, FltTryDisconnect))
         \<and> state s'
             = (if disconnect_answer E s1 = EINPROGRESS \<or> disconnect_answer E s1 = EAGAIN
                then BASEN_IN_FILTER_CLOSE else BASEN_IN_LL_CLOSE)
         \<and> (LlClose basen_ll_close_done_fn (self s) \<in> set (added s s'))
             = (state s' = BASEN_IN_LL_CLOSE))"
  unfolding s'_def s1_def
  using i_close_err[where s=s and E=E and cd=cd and p=p]
    i_close_drain[where s=s and E=E and cd=cd and p=p]
    i_close_filter[where s=s and E=E and cd=cd and p=p]
    i_close_fields[where s=s and E=E and cd=cd and p=p]
  by blast

theorem basen_i_close_rule_witness:
  "ll_err_occurred (ep_in BASEN_OPEN\<lparr>ll_err_occurred := True\<rparr>)
   \<and> state (basen_i_close quiet_env None 0 (ep_in BASEN_OPEN\<lparr>ll_err_occurred := True\<rparr>))
       = BASEN_IN_LL_CLOSE
   \<and> (\<not> ll_err_occurred (ep_in BASEN_OPEN\<lparr>has_filter := True\<rparr>)
        \<and> filter_ll_write_pending pending_env (ep_in BASEN_OPEN\<lparr>has_filter := True\<rparr>))
   \<and> state (basen_i_close pending_env None 0 (ep_in BASEN_OPEN\<lparr>has_filter := True\<rparr>))
       = BASEN_CLOSE_WAIT_DRAIN
   \<and> (\<not> ll_err_occurred (ep_in BASEN_OPEN\<lparr>has_filter := True\<rparr>)
        \<and> \<not> filter_ll_write_pending slow_env (ep_in BASEN_OPEN\<lparr>has_filter := True\<rparr>))
   \<and> state (basen_i_close slow_env (Some 1) 0 (ep_in BASEN_OPEN\<lparr>has_filter := True\<rparr>))
       = BASEN_IN_FILTER_CLOSE
   \<and> added_at (ep_in BASEN_OPEN\<lparr>has_filter := True\<rparr>)
        (basen_i_close slow_env (Some 1) 0 (ep_in BASEN_OPEN\<lparr>has_filter := True\<rparr>)) ! 2
       = (BASEN_IN_FILTER_CLOSE, FltTryDisconnect)"
proof -
  let ?A = "ep_in BASEN_OPEN\<lparr>ll_err_occurred := True\<rparr>"
  let ?B = "ep_in BASEN_OPEN\<lparr>has_filter := True\<rparr>"
  have hA: "ll_err_occurred ?A" by simp
  have hB: "\<not> ll_err_occurred ?B \<and> filter_ll_write_pending pending_env ?B"
    by (simp add: ep_in_def client_ep_def zeroed_def filter_ll_write_pending_def pending_env_def
        quiet_env_def)
  have hC: "\<not> ll_err_occurred ?B \<and> \<not> filter_ll_write_pending slow_env ?B"
    by (simp add: ep_in_def client_ep_def zeroed_def filter_ll_write_pending_def slow_env_def
        quiet_env_def)
  have hF: "has_filter ?B" by simp
  have ans: "disconnect_answer slow_env
               (?B\<lparr>close_done := Some 1, close_data := 0, state := BASEN_IN_FILTER_CLOSE\<rparr>)
             = EINPROGRESS"
    by (simp add: disconnect_answer_def filter_try_disconnect_def leaf_defs slow_env_def
        quiet_env_def ret0_def)
  show ?thesis
    using hA hB hC hF ans
      basen_i_close_rule [of quiet_env None 0 ?A]
      basen_i_close_rule [of pending_env None 0 ?B]
      basen_i_close_rule [of slow_env "Some 1" 0 ?B]
    by simp
qed


subsection \<open>Which calls a function can add to the trace\<close>

lemma calls_in_upd [simp]:
  "calls_in S s (t\<lparr>state := a1\<rparr>) = calls_in S s t"
  "calls_in S s (t\<lparr>refcount := a2\<rparr>) = calls_in S s t"
  "calls_in S s (t\<lparr>freeref := a3\<rparr>) = calls_in S s t"
  "calls_in S s (t\<lparr>open_done := a4\<rparr>) = calls_in S s t"
  "calls_in S s (t\<lparr>open_data := a5\<rparr>) = calls_in S s t"
  "calls_in S s (t\<lparr>close_done := a6\<rparr>) = calls_in S s t"
  "calls_in S s (t\<lparr>close_data := a7\<rparr>) = calls_in S s t"
  "calls_in S s (t\<lparr>read_enabled := b1\<rparr>) = calls_in S s t"
  "calls_in S s (t\<lparr>in_read := b2\<rparr>) = calls_in S s t"
  "calls_in S s (t\<lparr>xmit_enabled := b3\<rparr>) = calls_in S s t"
  "calls_in S s (t\<lparr>tmp_xmit_enabled := b4\<rparr>) = calls_in S s t"
  "calls_in S s (t\<lparr>saved_xmit_err := a8\<rparr>) = calls_in S s t"
  "calls_in S s (t\<lparr>ll_err_occurred := b5\<rparr>) = calls_in S s t"
  "calls_in S s (t\<lparr>deferred_op_pending := b6\<rparr>) = calls_in S s t"
  "calls_in S s (t\<lparr>deferred_read := b7\<rparr>) = calls_in S s t"
  "calls_in S s (t\<lparr>deferred_open := b8\<rparr>) = calls_in S s t"
  "calls_in S s (t\<lparr>deferred_close := b9\<rparr>) = calls_in S s t"
  "calls_in S s (t\<lparr>fault := a9\<rparr>) = calls_in S s t"
  "calls_in S s (t\<lparr>freed := c1\<rparr>) = calls_in S s t"
  "calls_in S s (t\<lparr>ll_close_wait := c2\<rparr>) = calls_in S s t"
  "calls_in S s (t\<lparr>ext := c3\<rparr>) = calls_in S s t"
  by (simp_all add: calls_in_def added_def)

lemma ci_ext:
  "calls_in S s t \<Longrightarrow> c \<in> S \<Longrightarrow> calls_in S s (snd (call_ext E c t))"
  by (rule calls_in_trans[OF _ calls_in_call_ext])

lemma ci_ext':
  "calls_in S s t \<Longrightarrow> c \<in> S \<Longrightarrow> call_ext E c t = (r, t') \<Longrightarrow> calls_in S s t'"
  using ci_ext[of S s t c E] by simp

lemma ci_unlocked:
  "calls_in S s t \<Longrightarrow> c \<in> S \<Longrightarrow> calls_in S s (snd (call_unlocked E c t))"
  by (auto simp: calls_in_def call_unlocked_eq added_def prefix_def)

lemma sysD: "sys_calls S \<Longrightarrow> \<not> is_usr c \<Longrightarrow> c \<in> S"
  by (simp add: sys_calls_def)

lemma ci_lock: "sys_calls S \<Longrightarrow> calls_in S s t \<Longrightarrow> calls_in S s (basen_lock E t)"
  by (simp add: basen_lock_def ci_ext sysD)

lemma ci_unlock: "sys_calls S \<Longrightarrow> calls_in S s t \<Longrightarrow> calls_in S s (basen_unlock E t)"
  by (simp add: basen_unlock_def ci_ext sysD)

lemma ci_set_read:
  "sys_calls S \<Longrightarrow> calls_in S s t \<Longrightarrow> calls_in S s (ll_set_read_callback_enable E b t)"
  by (simp add: ll_set_read_callback_enable_def ci_ext sysD)

lemma ci_set_write:
  "sys_calls S \<Longrightarrow> calls_in S s t \<Longrightarrow> calls_in S s (ll_set_write_callback_enable E b t)"
  by (simp add: ll_set_write_callback_enable_def ci_ext sysD)

lemma ci_enables:
  "sys_calls S \<Longrightarrow> calls_in S s t \<Longrightarrow> calls_in S s (basen_set_ll_enables E t)"
  by (simp add: basen_set_ll_enables_def Let_def ci_set_read ci_set_write)

lemma ci_sched:
  "sys_calls S \<Longrightarrow> calls_in S s t \<Longrightarrow> calls_in S s (basen_sched_deferred_op E t)"
  by (simp add: basen_sched_deferred_op_def basen_ref_def ci_ext sysD)

lemma ci_ll_close:
  "sys_calls S \<Longrightarrow> calls_in S s t \<Longrightarrow> calls_in S s (ll_close E d a t)"
  by (auto simp: ll_close_def basen_ref_def Let_def split: prod.splits
      intro!: ci_sched[simplified] dest!: ci_ext'[rotated 2] intro: sysD)

lemma ci_try_disconnect:
  "sys_calls S \<Longrightarrow> calls_in S s t \<Longrightarrow> calls_in S s (snd (filter_try_disconnect E t))"
  by (auto simp: filter_try_disconnect_def split: prod.splits dest!: ci_ext'[rotated 2] intro: sysD)

lemma ci_try_connect_flt:
  "sys_calls S \<Longrightarrow> calls_in S s t \<Longrightarrow> calls_in S s (snd (filter_try_connect E t))"
  by (auto simp: filter_try_connect_def split: prod.splits dest!: ci_ext'[rotated 2] intro: sysD)

lemma ci_check_open_done:
  "sys_calls S \<Longrightarrow> calls_in S s t \<Longrightarrow> calls_in S s (snd (filter_check_open_done E t))"
  by (auto simp: filter_check_open_done_def split: prod.splits dest!: ci_ext'[rotated 2] intro: sysD)

lemma ci_cleanup:
  "sys_calls S \<Longrightarrow> calls_in S s t \<Longrightarrow> calls_in S s (filter_cleanup E t)"
  by (simp add: filter_cleanup_def ci_ext sysD)

lemma ci_ul_write:
  "sys_calls S \<Longrightarrow> calls_in S s t
     \<Longrightarrow> calls_in S s (snd (filter_ul_write E (basen_write_data_handler E) rc b t))"
  by (simp add: filter_ul_write_def basen_write_data_handler_def ll_write_def ci_ext sysD)

lemma ci_try_close:
  assumes "sys_calls S" "calls_in S s t"
  shows "calls_in S s (basen_try_close E t)"
proof -
  let ?t2 = "ll_set_read_callback_enable E False (ll_set_write_callback_enable E False t)"
  obtain err tv t3 where f: "filter_try_disconnect E ?t2 = ((err, tv), t3)"
    by (metis prod.exhaust)
  have a: "calls_in S s ?t2"
    by (intro ci_set_read ci_set_write assms)
  have c3: "calls_in S s t3"
    using ci_try_disconnect[OF assms(1) a, where E=E] by (simp add: f)
  show ?thesis
    using c3 assms(1)
    by (simp add: basen_try_close_def Let_def f ci_ext sysD ci_ll_close)
qed

lemma ci_finish_open:
  assumes "sys_calls S" "calls_in S s t" "\<And>f p. UsrOpenDone f err p \<in> S"
  shows "calls_in S s (basen_finish_open E err t)"
  using assms
  by (auto simp: basen_finish_open_def Let_def split: option.splits
      intro!: ci_lock ci_unlocked ci_unlock ci_cleanup)

lemma ci_finish_close:
  assumes "sys_calls S" "calls_in S s t" "\<And>f p. UsrCloseDone f p \<in> S"
  shows "calls_in S s (basen_finish_close E t)"
  using assms
  by (auto simp: basen_finish_close_def Let_def split: option.splits
      intro!: ci_lock ci_unlocked ci_unlock ci_cleanup)

lemma ci_try_connect:
  assumes "sys_calls S" "calls_in S s t" "\<And>f p. UsrOpenDone f 0 p \<in> S"
  shows "calls_in S s (basen_try_connect E t)"
proof (cases "state t = BASEN_IN_FILTER_OPEN")
  case False
  then show ?thesis using assms(2) by (simp add: basen_try_connect_def)
next
  case True
  let ?t2 = "ll_set_read_callback_enable E False (ll_set_write_callback_enable E False t)"
  obtain err tv t3 where f: "filter_try_connect E ?t2 = ((err, tv), t3)"
    by (metis prod.exhaust)
  have a: "calls_in S s ?t2"
    by (intro ci_set_read ci_set_write assms)
  have c3: "calls_in S s t3"
    using ci_try_connect_flt[OF assms(1) a, where E=E] by (simp add: f)
  obtain err' t4 where g: "filter_check_open_done E t3 = (err', t4)"
    by (metis prod.exhaust)
  have c4: "calls_in S s t4"
    using ci_check_open_done[OF assms(1) c3, where E=E] by (simp add: g)
  show ?thesis
    using True c3 c4 assms(1,3)
    by (simp add: basen_try_connect_def Let_def f g ci_ext sysD ci_ll_close ci_finish_open)
qed

lemma ci_write_ready_head:
  assumes "sys_calls S" "calls_in S s t" "\<And>f p. UsrOpenDone f 0 p \<in> S"
  shows "calls_in S s (basen_ll_write_ready_head E t)"
proof -
  let ?s1 = "ll_set_write_callback_enable E False (basen_lock E t)"
  let ?s2 = "(if filter_ll_write_pending E ?s1
                then (let (r, s') = filter_ul_write E (basen_write_data_handler E) False None ?s1
                      in if r_err r \<noteq> 0 then s'\<lparr>saved_xmit_err := r_err r\<rparr> else s')
                else ?s1)"
  have c1: "calls_in S s ?s1"
    by (intro ci_set_write ci_lock assms)
  have c2: "calls_in S s ?s2"
    using c1 ci_ul_write[OF assms(1) c1, where E=E and rc=False and b=None]
    by (auto split: prod.splits)
  let ?s3 = "(if state ?s2 = BASEN_CLOSE_WAIT_DRAIN \<and> \<not> filter_ll_write_pending E ?s2
                then ?s2\<lparr>state := BASEN_IN_FILTER_CLOSE\<rparr> else ?s2)"
  have c3: "calls_in S s ?s3" using c2 by simp
  let ?s4 = "(if state ?s3 = BASEN_IN_FILTER_OPEN then basen_try_connect E ?s3 else ?s3)"
  have c4: "calls_in S s ?s4"
    using c3 ci_try_connect[OF assms(1) c3 assms(3), where E=E] by presburger
  have "calls_in S s (if state ?s4 = BASEN_IN_FILTER_CLOSE then basen_try_close E ?s4 else ?s4)"
    using c4 ci_try_close[OF assms(1) c4, where E=E] by presburger
  then show ?thesis
    by (simp add: basen_ll_write_ready_head_def Let_def)
qed

lemma calls_in_not_added: "calls_in (- {c}) s s' \<Longrightarrow> c \<notin> set (added s s')"
  by (auto simp: calls_in_def)

lemma added_mono:
  assumes "calls_in S s t" "calls_in S' t u" "c \<in> set (added s t)"
  shows "c \<in> set (added s u)"
proof -
  from assms obtain l1 l2 where "trace t = trace s @ l1" "trace u = trace t @ l2"
    by (auto simp: calls_in_def prefix_def)
  with assms(3) show ?thesis by (auto simp: added_def)
qed

lemma added_mono2:
  assumes "calls_in S s t" "calls_in S' t u" "c \<in> set (added t u)"
  shows "c \<in> set (added s u)"
proof -
  from assms obtain l1 l2 where "trace t = trace s @ l1" "trace u = trace t @ l2"
    by (auto simp: calls_in_def prefix_def)
  with assms(3) show ?thesis by (auto simp: added_def)
qed

lemma sys_calls_compl: "is_usr c \<Longrightarrow> sys_calls (- {c})"
  by (auto simp: sys_calls_def)

lemma enables_tmp:
  "tmp_xmit_enabled (basen_set_ll_enables E s) = tmp_xmit_enabled s"
  "fault (basen_set_ll_enables E s) = fault s"
  by (simp_all add: basen_set_ll_enables_def Let_def leaf_defs)

lemma unlock_tmp:
  "tmp_xmit_enabled (basen_unlock E s) = tmp_xmit_enabled s"
  "fault (basen_unlock E s) = fault s"
  by (simp_all add: leaf_defs)

lemma on_ok_ok: "fault t = None \<Longrightarrow> on_ok t k = k t"
  by (simp add: on_ok_def)

lemma on_ok_fault: "fault t \<noteq> None \<Longrightarrow> on_ok t k = t"
  by (auto simp: on_ok_def)

lemma ci_write_ready_tail:
  assumes "sys_calls S"
  shows "calls_in S t
           (on_ok t (\<lambda>u. basen_unlock E (basen_set_ll_enables E (u\<lparr>tmp_xmit_enabled := False\<rparr>))))"
proof (cases "fault t = None")
  case True
  have "calls_in S t (t\<lparr>tmp_xmit_enabled := False\<rparr>)"
    by (simp add: calls_in_refl)
  then have "calls_in S t (basen_unlock E (basen_set_ll_enables E (t\<lparr>tmp_xmit_enabled := False\<rparr>)))"
    by (intro ci_unlock ci_enables assms)
  then show ?thesis unfolding on_ok_ok[OF True] .
next
  case False
  show ?thesis unfolding on_ok_fault[OF False] by (rule calls_in_refl)
qed

lemma write_ready_tail_tmp:
  "fault (on_ok t (\<lambda>u. basen_unlock E (basen_set_ll_enables E (u\<lparr>tmp_xmit_enabled := False\<rparr>)))) = None
   \<longrightarrow> \<not> tmp_xmit_enabled
         (on_ok t (\<lambda>u. basen_unlock E (basen_set_ll_enables E (u\<lparr>tmp_xmit_enabled := False\<rparr>))))"
  by (cases "fault t") (simp_all add: on_ok_def enables_tmp unlock_tmp)


subsection \<open>The LL write-ready callback\<close>

text \<open>
  C8, as the claim states it, fails: with the state OpeningLL, \<open>xmit_enabled\<close> set and
  nothing pending, the user's write callback is called.
\<close>

theorem write_ready_in_ll_open_counterexample:
  "state (ep_in BASEN_IN_LL_OPEN\<lparr>xmit_enabled := True\<rparr>) = BASEN_IN_LL_OPEN
   \<and> state (basen_ll_write_ready quiet_env (ep_in BASEN_IN_LL_OPEN\<lparr>xmit_enabled := True\<rparr>))
       = BASEN_IN_LL_OPEN
   \<and> UsrWriteCallback
       \<in> set (added (ep_in BASEN_IN_LL_OPEN\<lparr>xmit_enabled := True\<rparr>)
                (basen_ll_write_ready quiet_env (ep_in BASEN_IN_LL_OPEN\<lparr>xmit_enabled := True\<rparr>)))"
  by code_simp


text \<open>
  C8, amended. The user's write callback is called exactly when, after the flush and the
  handshake steps of the callback, \<open>xmit_enabled\<close> is set, the filter has no LL-bound
  bytes pending and the state is not OpeningFilter (callbacks being installed);
  OpeningLL does not hold it back. And \<open>tmp_xmit_enabled\<close> is false when the
  callback returns.
\<close>

theorem write_ready_callback_rule:
  fixes E :: "'x env" and s :: "'x basen_data"
  defines "h \<equiv> basen_ll_write_ready_head E s"
  defines "s' \<equiv> basen_ll_write_ready E s"
  shows "(UsrWriteCallback \<in> set (added s s'))
           = (xmit_enabled h \<and> \<not> filter_ll_write_pending E h
              \<and> state h \<noteq> BASEN_IN_FILTER_OPEN \<and> cbs h \<noteq> None)
       \<and> (fault s' = None \<longrightarrow> \<not> tmp_xmit_enabled s')"
proof -
  let ?S = "- {UsrWriteCallback}"
  let ?cond = "state h \<noteq> BASEN_IN_FILTER_OPEN \<and> \<not> filter_ll_write_pending E h \<and> xmit_enabled h"
  let ?s6 = "(if ?cond
                then (if cbs h = None then h\<lparr>fault := Some NullDeref\<rparr>
                      else basen_lock E
                             (snd (call_unlocked E UsrWriteCallback (basen_unlock E h))))
                else h)"
  let ?k = "\<lambda>t. basen_unlock E (basen_set_ll_enables E (t\<lparr>tmp_xmit_enabled := False\<rparr>))"
  have sys: "sys_calls ?S" by (simp add: sys_calls_compl)
  have s': "s' = on_ok ?s6 ?k"
    by (simp add: s'_def h_def basen_ll_write_ready_def Let_def)
  have ch: "calls_in ?S s h"
    unfolding h_def by (rule ci_write_ready_head[OF sys calls_in_refl]) simp
  have ck: "calls_in ?S ?s6 s'"
    unfolding s' by (rule ci_write_ready_tail[OF sys])
  have tmp: "fault s' = None \<longrightarrow> \<not> tmp_xmit_enabled s'"
    unfolding s' by (rule write_ready_tail_tmp)
  show ?thesis
  proof (cases "?cond \<and> cbs h \<noteq> None")
    case True
    then have s6: "?s6 = basen_lock E (snd (call_unlocked E UsrWriteCallback (basen_unlock E h)))"
      by auto
    have "UsrWriteCallback \<in> set (added h ?s6)"
      unfolding s6 by (simp add: added_def leaf_defs call_unlocked_eq)
    moreover have c6: "calls_in UNIV h ?s6"
      unfolding s6
      by (intro ci_lock ci_unlocked ci_unlock calls_in_refl) (simp_all add: sys_calls_def)
    ultimately have "UsrWriteCallback \<in> set (added h s')"
      using added_mono[OF _ ck] by blast
    moreover have "calls_in UNIV h s'"
      by (rule calls_in_trans[OF c6 calls_in_mono[OF ck]]) simp
    ultimately have "UsrWriteCallback \<in> set (added s s')"
      using added_mono2[OF ch] by blast
    with True tmp show ?thesis by blast
  next
    case False
    then have "calls_in ?S h ?s6"
      by (auto simp: calls_in_refl)
    then have "calls_in ?S s s'"
      using ch ck calls_in_trans by blast
    then have "UsrWriteCallback \<notin> set (added s s')"
      by (rule calls_in_not_added)
    with False tmp show ?thesis by blast
  qed
qed

theorem write_ready_callback_rule_witness:
  "UsrWriteCallback
       \<in> set (added (ep_in BASEN_OPEN\<lparr>xmit_enabled := True\<rparr>)
                (basen_ll_write_ready quiet_env (ep_in BASEN_OPEN\<lparr>xmit_enabled := True\<rparr>)))
   \<and> fault (basen_ll_write_ready quiet_env
               (ep_in BASEN_OPEN\<lparr>xmit_enabled := True, tmp_xmit_enabled := True\<rparr>)) = None
   \<and> \<not> tmp_xmit_enabled (basen_ll_write_ready quiet_env
               (ep_in BASEN_OPEN\<lparr>xmit_enabled := True, tmp_xmit_enabled := True\<rparr>))"
proof -
  have a: "fault (basen_ll_write_ready quiet_env
               (ep_in BASEN_OPEN\<lparr>xmit_enabled := True, tmp_xmit_enabled := True\<rparr>)) = None"
    by code_simp
  have b: "xmit_enabled (basen_ll_write_ready_head quiet_env (ep_in BASEN_OPEN\<lparr>xmit_enabled := True\<rparr>))
       \<and> \<not> filter_ll_write_pending quiet_env
             (basen_ll_write_ready_head quiet_env (ep_in BASEN_OPEN\<lparr>xmit_enabled := True\<rparr>))
       \<and> state (basen_ll_write_ready_head quiet_env (ep_in BASEN_OPEN\<lparr>xmit_enabled := True\<rparr>))
            \<noteq> BASEN_IN_FILTER_OPEN
       \<and> cbs (basen_ll_write_ready_head quiet_env (ep_in BASEN_OPEN\<lparr>xmit_enabled := True\<rparr>))
            \<noteq> None"
    by code_simp
  show ?thesis
    using a b
      write_ready_callback_rule [of "ep_in BASEN_OPEN\<lparr>xmit_enabled := True\<rparr>" quiet_env]
      write_ready_callback_rule
        [of "ep_in BASEN_OPEN\<lparr>xmit_enabled := True, tmp_xmit_enabled := True\<rparr>" quiet_env]
    by blast
qed


subsection \<open>A user close while the filter handshake of an open is running\<close>

text \<open>
  What \<open>basen_close\<close> does by state: \<open>EBUSY\<close> and nothing else in Closed,
  CloseWaitDrain, ClosingFilter and ClosingLL; 0 and the close in Open; in the opening
  states 0, the close and one reference fewer, if the assertion of \<open>basen_deref\<close>
  holds.
\<close>

lemma basen_close_busy:
  assumes "state s \<in> {BASEN_CLOSED, BASEN_CLOSE_WAIT_DRAIN, BASEN_IN_FILTER_CLOSE, BASEN_IN_LL_CLOSE}"
  shows "basen_close E cd p s = (EBUSY, basen_unlock E (basen_lock E s))"
    and "(snd (basen_close E cd p s))\<lparr>ext := ext s, trace := trace s\<rparr> = s"
    and "added s (snd (basen_close E cd p s)) = [OsLock, OsUnlock]"
  using assms by (auto simp: basen_close_def Let_def leaf_defs added_def)

lemma basen_close_open:
  assumes "state s = BASEN_OPEN"
  shows "basen_close E cd p s = (0, basen_unlock E (basen_i_close E cd p (basen_lock E s)))"
  using assms by (simp add: basen_close_def Let_def leaf_defs)

lemma basen_close_opening:
  fixes E :: "'x env" and s :: "'x basen_data" and cd :: "fn option" and p :: ptr
  assumes "state s = BASEN_IN_LL_OPEN \<or> state s = BASEN_IN_FILTER_OPEN"
  defines "t \<equiv> basen_i_close E cd p (basen_lock E s)"
  shows "fst (basen_close E cd p s) = 0"
    and "1 < refcount t \<Longrightarrow> fault t = None \<Longrightarrow>
           snd (basen_close E cd p s) = basen_unlock E (t\<lparr>refcount := refcount t - 1\<rparr>)"
    and "\<not> 1 < refcount t \<Longrightarrow> fault (snd (basen_close E cd p s)) = Some AssertFailed"
  using assms
  by (auto simp: basen_close_def Let_def leaf_defs on_ok_def basen_deref_def)


text \<open>
  C6: where the code departs from it. A server endpoint as \<open>base_genio_server_alloc\<close>
  returns it is in OpeningFilter with a reference count of 1. A user close on it, with a
  filter whose \<open>try_disconnect\<close> answers in-progress, reaches \<open>basen_deref\<close> with the
  count still 1: the assertion \<open>refcount > 1\<close> fails and the call does not return.
\<close>

theorem close_in_filter_open_fails_assert:
  "(case base_genio_server_alloc slow_env () True (Some 7) 0 of
      Inl s \<Rightarrow> False
    | Inr s \<Rightarrow>
        state s = BASEN_IN_FILTER_OPEN \<and> refcount s = 1 \<and> fault s = None
        \<and> fault (snd (basen_close slow_env (Some 9) 0 s)) = Some AssertFailed)"
  by code_simp

subsection \<open>An LL read error while opening\<close>

text \<open>
  The error path of \<open>basen_ll_read\<close>, branch by branch. It returns 0; \<open>s2\<close> is the
  endpoint with the LL read callback disabled, \<open>read_enabled\<close> false and
  \<open>ll_err_occurred\<close> true.
\<close>

lemma ll_read_error:
  fixes E :: "'x env" and s :: "'x basen_data" and readerr :: int and b :: buf
  assumes "readerr \<noteq> 0"
  defines "s2 \<equiv> (ll_set_read_callback_enable E False (basen_lock E s))
                   \<lparr>read_enabled := False, ll_err_occurred := True\<rparr>"
  shows "fst (basen_ll_read E readerr b s) = 0"
    and "state s = BASEN_IN_FILTER_OPEN \<or> state s = BASEN_IN_LL_OPEN \<Longrightarrow>
           snd (basen_ll_read E readerr b s)
             = basen_unlock E (basen_set_ll_enables E
                 (ll_close E basen_ll_close_on_err_fn ECOMM (s2\<lparr>state := BASEN_IN_LL_CLOSE\<rparr>)))"
    and "state s = BASEN_CLOSE_WAIT_DRAIN \<or> state s = BASEN_IN_FILTER_CLOSE \<Longrightarrow>
           snd (basen_ll_read E readerr b s)
             = basen_unlock E (basen_set_ll_enables E
                 (ll_close E basen_ll_close_done_fn 0 (s2\<lparr>state := BASEN_IN_LL_CLOSE\<rparr>)))"
    and "state s \<in> {BASEN_CLOSED, BASEN_OPEN, BASEN_IN_LL_CLOSE} \<Longrightarrow> cbs s \<noteq> None \<Longrightarrow>
           snd (basen_ll_read E readerr b s)
             = basen_unlock E (basen_set_ll_enables E
                 (basen_lock E (snd (call_unlocked E (UsrReadCallback readerr None)
                                       (basen_unlock E s2)))))"
    and "state s \<in> {BASEN_CLOSED, BASEN_OPEN, BASEN_IN_LL_CLOSE} \<Longrightarrow> cbs s = None \<Longrightarrow>
           snd (basen_ll_read E readerr b s)
             = basen_unlock E (basen_set_ll_enables E (basen_i_close E None 0 s2))"
  using assms
  by (auto simp: basen_ll_read_def Let_def leaf_defs)

text \<open>
  C2: where the code departs from it. On a server endpoint in OpeningFilter with
  \<open>open_done\<close> installed, an LL read error (here 104) sets the state to ClosingLL and
  calls the LL's close with \<open>basen_ll_close_on_err\<close>, but hands it the address of the
  endpoint (here 4096) in place of \<open>ECOMM\<close>. When the LL completes the close,
  \<open>open_done\<close> is called with 4096, not with \<open>ECOMM\<close>. And when the LL's close
  completes at once, the deferred operation finishes the close through
  \<open>basen_finish_close\<close>: \<open>open_done\<close> is not called at all.
\<close>

theorem ll_read_error_while_opening_loses_ecomm:
  "(case base_genio_server_alloc slow_env () False (Some 7) 0 of
      Inl s \<Rightarrow> False
    | Inr s \<Rightarrow>
        (let s1 = snd (basen_ll_read slow_env 104 None s);
             s2 = ll_complete_close slow_env s1
         in state s = BASEN_IN_FILTER_OPEN \<and> self s = 4096
            \<and> state s1 = BASEN_IN_LL_CLOSE \<and> \<not> read_enabled s1 \<and> ll_err_occurred s1
            \<and> LlClose basen_ll_close_on_err_fn 4096 \<in> set (added s s1)
            \<and> LlClose basen_ll_close_on_err_fn ECOMM \<notin> set (added s s1)
            \<and> UsrOpenDone 7 4096 0 \<in> set (added s1 s2)
            \<and> UsrOpenDone 7 ECOMM 0 \<notin> set (added s1 s2)
            \<and> state s2 = BASEN_CLOSED))
   \<and> (case base_genio_server_alloc quiet_env () False (Some 7) 0 of
      Inl s \<Rightarrow> False
    | Inr s \<Rightarrow>
        (let s1 = snd (basen_ll_read quiet_env 104 None s);
             s2 = basen_deferred_op quiet_env 3 s1
         in state s1 = BASEN_IN_LL_CLOSE \<and> deferred_close s1 \<and> ll_close_wait s1 = None
            \<and> fault s2 = None \<and> state s2 = BASEN_CLOSED
            \<and> added s s2
               = [OsLock, LlSetReadCallbackEnable False,
                  LlClose basen_ll_close_on_err_fn 4096, OsRun,
                  LlSetWriteCallbackEnable True, OsUnlock, OsLock,
                  LlSetWriteCallbackEnable True, OsUnlock]))"
  by code_simp


subsection \<open>After a close that superseded an open\<close>

lemma sys_nod: "sys_calls no_open_done"
  by (auto simp: sys_calls_def no_open_done_def elim: is_open_done.elims)

lemma nod_simps [simp]:
  "UsrReadCallback e b \<in> no_open_done" "UsrWriteCallback \<in> no_open_done"
  "UsrUrgentCallback \<in> no_open_done" "UsrCloseDone f p \<in> no_open_done"
  "FltTimeout \<in> no_open_done" "FltLlWrite rc b \<in> no_open_done"
  by (simp_all add: no_open_done_def)

lemma closing_inv_upd [simp]:
  "closing_inv (t\<lparr>refcount := a2\<rparr>) = closing_inv t"
  "closing_inv (t\<lparr>freeref := a3\<rparr>) = closing_inv t"
  "closing_inv (t\<lparr>open_done := a4\<rparr>) = closing_inv t"
  "closing_inv (t\<lparr>open_data := a5\<rparr>) = closing_inv t"
  "closing_inv (t\<lparr>close_done := a6\<rparr>) = closing_inv t"
  "closing_inv (t\<lparr>close_data := a7\<rparr>) = closing_inv t"
  "closing_inv (t\<lparr>read_enabled := b1\<rparr>) = closing_inv t"
  "closing_inv (t\<lparr>in_read := b2\<rparr>) = closing_inv t"
  "closing_inv (t\<lparr>xmit_enabled := b3\<rparr>) = closing_inv t"
  "closing_inv (t\<lparr>tmp_xmit_enabled := b4\<rparr>) = closing_inv t"
  "closing_inv (t\<lparr>saved_xmit_err := a8\<rparr>) = closing_inv t"
  "closing_inv (t\<lparr>ll_err_occurred := b5\<rparr>) = closing_inv t"
  "closing_inv (t\<lparr>deferred_op_pending := b6\<rparr>) = closing_inv t"
  "closing_inv (t\<lparr>deferred_read := b7\<rparr>) = closing_inv t"
  "closing_inv (t\<lparr>deferred_open := b8\<rparr>) = closing_inv t"
  "closing_inv (t\<lparr>deferred_close := b9\<rparr>) = closing_inv t"
  "closing_inv (t\<lparr>fault := a9\<rparr>) = closing_inv t"
  "closing_inv (t\<lparr>freed := c1\<rparr>) = closing_inv t"
  "closing_inv (t\<lparr>ext := c3\<rparr>) = closing_inv t"
  "closing_inv (t\<lparr>trace := c4\<rparr>) = closing_inv t"
  "closing_inv (t\<lparr>self := c5\<rparr>) = closing_inv t"
  by (simp_all add: closing_inv_def on_err_waiting_def)

lemma quiet_upd [simp]:
  "quiet s (t\<lparr>refcount := a2\<rparr>) = quiet s t"
  "quiet s (t\<lparr>freeref := a3\<rparr>) = quiet s t"
  "quiet s (t\<lparr>open_done := a4\<rparr>) = quiet s t"
  "quiet s (t\<lparr>open_data := a5\<rparr>) = quiet s t"
  "quiet s (t\<lparr>close_done := a6\<rparr>) = quiet s t"
  "quiet s (t\<lparr>close_data := a7\<rparr>) = quiet s t"
  "quiet s (t\<lparr>read_enabled := b1\<rparr>) = quiet s t"
  "quiet s (t\<lparr>in_read := b2\<rparr>) = quiet s t"
  "quiet s (t\<lparr>xmit_enabled := b3\<rparr>) = quiet s t"
  "quiet s (t\<lparr>tmp_xmit_enabled := b4\<rparr>) = quiet s t"
  "quiet s (t\<lparr>saved_xmit_err := a8\<rparr>) = quiet s t"
  "quiet s (t\<lparr>ll_err_occurred := b5\<rparr>) = quiet s t"
  "quiet s (t\<lparr>deferred_op_pending := b6\<rparr>) = quiet s t"
  "quiet s (t\<lparr>deferred_read := b7\<rparr>) = quiet s t"
  "quiet s (t\<lparr>deferred_open := b8\<rparr>) = quiet s t"
  "quiet s (t\<lparr>deferred_close := b9\<rparr>) = quiet s t"
  "quiet s (t\<lparr>fault := a9\<rparr>) = quiet s t"
  "quiet s (t\<lparr>freed := c1\<rparr>) = quiet s t"
  "quiet s (t\<lparr>ext := c3\<rparr>) = quiet s t"
  by (simp_all add: quiet_def)

lemma quiet_state:
  "quiet s t \<Longrightarrow> st \<noteq> BASEN_IN_FILTER_OPEN \<Longrightarrow> st \<noteq> BASEN_IN_LL_OPEN
     \<Longrightarrow> quiet s (t\<lparr>state := st\<rparr>)"
  by (simp add: quiet_def closing_inv_def on_err_waiting_def)

lemma quiet_wait:
  "quiet s t \<Longrightarrow> quiet s (t\<lparr>ll_close_wait := Some (basen_ll_close_done_fn, p)\<rparr>)"
  "quiet s t \<Longrightarrow> quiet s (t\<lparr>ll_close_wait := None\<rparr>)"
  by (simp_all add: quiet_def closing_inv_def on_err_waiting_def)

lemma quiet_refl: "closing_inv s \<Longrightarrow> quiet s s"
  by (simp add: quiet_def calls_in_refl)

lemma quiet_stateD:
  "quiet s t \<Longrightarrow> state t \<noteq> BASEN_IN_FILTER_OPEN"
  "quiet s t \<Longrightarrow> state t \<noteq> BASEN_IN_LL_OPEN"
  by (simp_all add: quiet_def closing_inv_def)

lemma closing_inv_ext [simp]: "closing_inv (snd (call_ext E c t)) = closing_inv t"
  by (simp add: closing_inv_def on_err_waiting_def call_ext_eq)

lemma q_ext: "quiet s t \<Longrightarrow> \<not> is_open_done c \<Longrightarrow> quiet s (snd (call_ext E c t))"
  by (simp add: quiet_def ci_ext no_open_done_def)

lemma q_ext': "quiet s t \<Longrightarrow> \<not> is_open_done c \<Longrightarrow> call_ext E c t = (r, t') \<Longrightarrow> quiet s t'"
  using q_ext[of s t c E] by simp

lemma q_unlocked:
  "env_quiet E \<Longrightarrow> quiet s t \<Longrightarrow> \<not> is_open_done c \<Longrightarrow> quiet s (snd (call_unlocked E c t))"
  unfolding quiet_def
  by (simp add: ci_unlocked no_open_done_def) (simp add: call_unlocked_eq env_quiet_def)

lemma q_lock: "quiet s t \<Longrightarrow> quiet s (basen_lock E t)"
  by (simp add: basen_lock_def q_ext)

lemma q_unlock: "quiet s t \<Longrightarrow> quiet s (basen_unlock E t)"
  by (simp add: basen_unlock_def q_ext)

lemma q_set_read: "quiet s t \<Longrightarrow> quiet s (ll_set_read_callback_enable E b t)"
  by (simp add: ll_set_read_callback_enable_def q_ext)

lemma q_set_write: "quiet s t \<Longrightarrow> quiet s (ll_set_write_callback_enable E b t)"
  by (simp add: ll_set_write_callback_enable_def q_ext)

lemma q_enables: "quiet s t \<Longrightarrow> quiet s (basen_set_ll_enables E t)"
  by (simp add: basen_set_ll_enables_def Let_def q_set_read q_set_write)

lemma q_sched: "quiet s t \<Longrightarrow> quiet s (basen_sched_deferred_op E t)"
  by (simp add: basen_sched_deferred_op_def basen_ref_def q_ext)

lemma q_cleanup: "quiet s t \<Longrightarrow> quiet s (filter_cleanup E t)"
  by (simp add: filter_cleanup_def q_ext)

lemma q_ll_close:
  "quiet s t \<Longrightarrow> quiet s (ll_close E basen_ll_close_done_fn a t)"
  by (auto simp: ll_close_def basen_ref_def Let_def split: prod.splits
      intro!: q_sched[simplified] quiet_wait dest!: q_ext'[rotated 2])

lemma q_try_disconnect: "quiet s t \<Longrightarrow> quiet s (snd (filter_try_disconnect E t))"
  by (auto simp: filter_try_disconnect_def split: prod.splits dest!: q_ext'[rotated 2])

lemma q_try_close:
  assumes "quiet s t"
  shows "quiet s (basen_try_close E t)"
proof -
  let ?t2 = "ll_set_read_callback_enable E False (ll_set_write_callback_enable E False t)"
  obtain err tv t3 where f: "filter_try_disconnect E ?t2 = ((err, tv), t3)"
    by (metis prod.exhaust)
  have a: "quiet s ?t2"
    by (intro q_set_read q_set_write assms)
  have c3: "quiet s t3"
    using q_try_disconnect[OF a, where E=E] by (simp add: f)
  show ?thesis
    using c3
    by (simp add: basen_try_close_def Let_def f q_ext q_ll_close quiet_state)
qed

text \<open>\<open>basen_i_close\<close> leaves the opening states.\<close>

lemma q_i_close:
  assumes "calls_in no_open_done s t" "\<not> on_err_waiting t"
  shows "quiet s (basen_i_close E cd p t)"
proof -
  have q: "\<And>st. st \<noteq> BASEN_IN_FILTER_OPEN \<Longrightarrow> st \<noteq> BASEN_IN_LL_OPEN
            \<Longrightarrow> quiet s (t\<lparr>close_done := cd, close_data := p, state := st\<rparr>)"
    using assms by (simp add: quiet_def closing_inv_def on_err_waiting_def)
  show ?thesis
    by (simp add: basen_i_close_def Let_def q q_enables q_ll_close q_try_close)
qed

lemma q_i_close': "quiet s t \<Longrightarrow> quiet s (basen_i_close E cd p t)"
  by (rule q_i_close) (simp_all add: quiet_def closing_inv_def)

lemma q_finish_close:
  assumes "env_quiet E" "quiet s t"
  shows "quiet s (basen_finish_close E t)"
  using assms
  by (auto simp: basen_finish_close_def Let_def split: option.splits
      intro!: q_lock q_unlocked q_unlock quiet_state q_cleanup)

lemma q_deref: "quiet s t \<Longrightarrow> quiet s (basen_deref t)"
  by (simp add: basen_deref_def)

lemma q_finish_free: "quiet s t \<Longrightarrow> quiet s (basen_finish_free E t)"
  by (simp add: basen_finish_free_def Let_def filter_free_def q_ext)

lemma q_deref_and_unlock: "quiet s t \<Longrightarrow> quiet s (basen_deref_and_unlock E t)"
  by (auto simp: basen_deref_and_unlock_def Let_def split: prod.splits
      intro!: q_finish_free q_unlock dest!: q_ext'[rotated 2, where c=OsStopTimerWithDone])

lemma q_on_ok: "quiet s t \<Longrightarrow> (\<And>u. quiet s u \<Longrightarrow> quiet s (k u)) \<Longrightarrow> quiet s (on_ok t k)"
  by (simp add: on_ok_def)

lemma q_ul_write:
  "quiet s t \<Longrightarrow> quiet s (snd (filter_ul_write E (basen_write_data_handler E) rc b t))"
  by (simp add: filter_ul_write_def basen_write_data_handler_def ll_write_def q_ext)

lemma q_write:
  assumes "quiet s t"
  shows "quiet s (snd (basen_write E rc b t))"
proof -
  have l: "quiet s (basen_lock E t)" by (rule q_lock[OF assms])
  have "quiet s (snd (filter_ul_write E (basen_write_data_handler E) rc b (basen_lock E t)))"
    by (rule q_ul_write[OF l])
  with l show ?thesis
    by (auto simp: basen_write_def Let_def split: prod.splits intro!: q_unlock q_enables)
qed

lemma q_set_read_enable:
  "quiet s t \<Longrightarrow> quiet s (basen_set_read_callback_enable E b t)"
  by (simp add: basen_set_read_callback_enable_def Let_def q_unlock q_lock q_sched q_enables)

lemma q_set_write_enable:
  "quiet s t \<Longrightarrow> quiet s (basen_set_write_callback_enable E b t)"
  by (simp add: basen_set_write_callback_enable_def Let_def q_unlock q_lock q_enables)

lemma q_do_ref: "quiet s t \<Longrightarrow> quiet s (basen_do_ref E t)"
  by (simp add: basen_do_ref_def Let_def q_unlock q_lock)

lemma q_free:
  assumes "quiet s t"
  shows "quiet s (basen_free E t)"
proof -
  have l: "quiet s (basen_lock E t)" by (rule q_lock[OF assms])
  show ?thesis
    using l quiet_stateD[OF l]
    by (auto simp: basen_free_def Let_def
        intro!: q_on_ok q_deref_and_unlock q_unlock q_i_close' q_deref)
qed

lemma q_close:
  assumes "quiet s t"
  shows "quiet s (snd (basen_close E cd p t))"
proof -
  have l: "quiet s (basen_lock E t)" by (rule q_lock[OF assms])
  show ?thesis
    using l quiet_stateD[OF l]
    by (auto simp: basen_close_def Let_def intro!: q_unlock q_i_close')
qed

lemma q_read_handler:
  "env_quiet E \<Longrightarrow> quiet s t \<Longrightarrow> quiet s (snd (basen_read_data_handler E rc b t))"
  by (auto simp: basen_read_data_handler_def split: prod.splits
      dest!: q_unlocked[rotated 3, where c="UsrReadCallback 0 b"] )

lemma quiet_trace_snoc:
  "quiet s t \<Longrightarrow> \<not> is_open_done c \<Longrightarrow> quiet s (t\<lparr>trace := trace t @ [(st, c)]\<rparr>)"
  by (auto simp: quiet_def calls_in_def added_def prefix_def no_open_done_def)

lemma q_filter_ll_write:
  assumes "env_quiet E" "quiet s t"
  shows "quiet s (snd (filter_ll_write E (basen_read_data_handler E) rc b t))"
proof (cases "has_filter t")
  case False
  then show ?thesis
    by (simp add: filter_ll_write_def q_read_handler[OF assms])
next
  case True
  have a: "quiet s (t\<lparr>trace := trace t @ [(state t, FltLlWrite rc b)]\<rparr>)"
    by (rule quiet_trace_snoc[OF assms(2)]) simp
  have h: "\<forall>rcount' b' u. quiet s u \<longrightarrow> quiet s (snd (basen_read_data_handler E rcount' b' u))"
    using q_read_handler[OF assms(1)] by blast
  have "quiet s (snd (flt_ll_write E (basen_read_data_handler E) rc b
                       (t\<lparr>trace := trace t @ [(state t, FltLlWrite rc b)]\<rparr>)))"
    using assms(1) h a unfolding env_quiet_def by blast
  with True show ?thesis
    by (simp add: filter_ll_write_def)
qed

text \<open>Outside the state OpeningFilter the assertion of \<open>basen_try_connect\<close> fails.\<close>

lemma q_try_connect: "quiet s t \<Longrightarrow> quiet s (basen_try_connect E t)"
  by (simp add: basen_try_connect_def quiet_stateD)

lemma q_ll_read:
  assumes "env_quiet E" "quiet s t"
  shows "quiet s (snd (basen_ll_read E readerr b t))"
proof -
  let ?s1 = "ll_set_read_callback_enable E False (basen_lock E t)"
  have s1: "quiet s ?s1" by (intro q_set_read q_lock assms)
  show ?thesis
  proof (cases "readerr \<noteq> 0")
    case True
    let ?s2 = "?s1\<lparr>read_enabled := False, ll_err_occurred := True\<rparr>"
    have s2: "quiet s ?s2" using s1 by simp
    have st: "state ?s2 \<noteq> BASEN_IN_FILTER_OPEN" "state ?s2 \<noteq> BASEN_IN_LL_OPEN"
      using quiet_stateD[OF s2] by auto
    have "quiet s (if state ?s2 = BASEN_CLOSE_WAIT_DRAIN \<or> state ?s2 = BASEN_IN_FILTER_CLOSE
                     then ll_close E basen_ll_close_done_fn 0 (?s2\<lparr>state := BASEN_IN_LL_CLOSE\<rparr>)
                     else if cbs ?s2 \<noteq> None
                     then basen_lock E
                            (snd (call_unlocked E (UsrReadCallback readerr None)
                                    (basen_unlock E ?s2)))
                     else basen_i_close E None 0 ?s2)"
      using s2
      by (auto intro!: q_ll_close quiet_state q_lock q_unlocked[OF assms(1)] q_unlock q_i_close'
          simp del: quiet_upd)
    then show ?thesis
      using True st
      by (simp add: basen_ll_read_def Let_def q_unlock q_enables del: quiet_upd)
  next
    case False
    let ?t1 = "basen_unlock E (?s1\<lparr>in_read := True\<rparr>)"
    have t1: "quiet s ?t1" using s1 by (simp add: q_unlock)
    obtain r t2 where f: "filter_ll_write E (basen_read_data_handler E) True b ?t1 = (r, t2)"
      by (metis prod.exhaust)
    have t2: "quiet s t2"
      using q_filter_ll_write[OF assms(1) t1, where rc=True and b=b] by (simp add: f)
    let ?t3 = "(basen_lock E t2)\<lparr>in_read := False\<rparr>"
    have t3: "quiet s ?t3" using t2 by (simp add: q_lock)
    let ?t4 = "(if state ?t3 = BASEN_IN_FILTER_OPEN then basen_try_connect E ?t3 else ?t3)"
    have t4: "quiet s ?t4" using t3 q_try_connect[OF t3] by presburger
    have t5: "quiet s (if state ?t4 = BASEN_IN_FILTER_CLOSE then basen_try_close E ?t4 else ?t4)"
      using t4 q_try_close[OF t4] by presburger
    show ?thesis
      using False s1 t2 t5
      by (simp add: basen_ll_read_def Let_def f q_unlock q_enables del: quiet_upd)
  qed
qed

lemma q_write_ready_head:
  assumes "quiet s t"
  shows "quiet s (basen_ll_write_ready_head E t)"
proof -
  let ?s1 = "ll_set_write_callback_enable E False (basen_lock E t)"
  let ?s2 = "(if filter_ll_write_pending E ?s1
                then (let (r, s') = filter_ul_write E (basen_write_data_handler E) False None ?s1
                      in if r_err r \<noteq> 0 then s'\<lparr>saved_xmit_err := r_err r\<rparr> else s')
                else ?s1)"
  have c1: "quiet s ?s1"
    by (intro q_set_write q_lock assms)
  have c2: "quiet s ?s2"
    using c1 q_ul_write[OF c1, where E=E and rc=False and b=None]
    by (auto split: prod.splits)
  let ?s3 = "(if state ?s2 = BASEN_CLOSE_WAIT_DRAIN \<and> \<not> filter_ll_write_pending E ?s2
                then ?s2\<lparr>state := BASEN_IN_FILTER_CLOSE\<rparr> else ?s2)"
  have c3: "quiet s ?s3" using c2 quiet_state[OF c2, of BASEN_IN_FILTER_CLOSE] by simp
  let ?s4 = "(if state ?s3 = BASEN_IN_FILTER_OPEN then basen_try_connect E ?s3 else ?s3)"
  have c4: "quiet s ?s4"
    using c3 q_try_connect[OF c3, where E=E] by presburger
  have "quiet s (if state ?s4 = BASEN_IN_FILTER_CLOSE then basen_try_close E ?s4 else ?s4)"
    using c4 q_try_close[OF c4, where E=E] by presburger
  then show ?thesis
    by (simp add: basen_ll_write_ready_head_def Let_def)
qed

lemma q_write_ready:
  assumes "env_quiet E" "quiet s t"
  shows "quiet s (basen_ll_write_ready E t)"
proof -
  let ?h = "basen_ll_write_ready_head E t"
  have h: "quiet s ?h" by (rule q_write_ready_head[OF assms(2)])
  have "quiet s (basen_lock E (snd (call_unlocked E UsrWriteCallback (basen_unlock E ?h))))"
    by (intro q_lock q_unlocked[OF assms(1)] q_unlock h) simp
  with h show ?thesis
    by (auto simp: basen_ll_write_ready_def Let_def intro!: q_on_ok q_unlock q_enables)
qed

lemma q_urgent: "env_quiet E \<Longrightarrow> quiet s t \<Longrightarrow> quiet s (basen_ll_urgent E t)"
  by (auto simp: basen_ll_urgent_def filter_ll_urgent_def split: option.splits
      intro!: q_ext q_unlocked)

lemma q_output_ready: "quiet s t \<Longrightarrow> quiet s (basen_output_ready E t)"
  by (simp add: basen_output_ready_def q_set_write)

lemma q_start_timer: "quiet s t \<Longrightarrow> quiet s (basen_start_timer E tv t)"
  by (simp add: basen_start_timer_def Let_def q_unlock q_lock q_ext)

lemma q_timeout:
  assumes "env_quiet E" "quiet s t"
  shows "quiet s (basen_timeout E t)"
proof -
  have l: "quiet s (basen_lock E t)" by (rule q_lock[OF assms(2)])
  have "quiet s (basen_lock E (snd (call_unlocked E FltTimeout (basen_unlock E (basen_lock E t)))))"
    by (intro q_lock q_unlocked[OF assms(1)] q_unlock l) simp
  with l show ?thesis
    by (auto simp: basen_timeout_def Let_def split: basen_state.splits
        intro!: q_on_ok q_unlock q_enables q_try_connect q_try_close)
qed

lemma q_timer_stopped: "quiet s t \<Longrightarrow> quiet s (basen_timer_stopped E t)"
  by (simp add: basen_timer_stopped_def q_finish_free)

lemma q_ll_close_done:
  "env_quiet E \<Longrightarrow> quiet s t \<Longrightarrow> quiet s (basen_ll_close_done E p t)"
  by (simp add: basen_ll_close_done_def q_deref_and_unlock q_finish_close q_lock)

lemma q_complete_close:
  assumes "env_quiet E" "quiet s t"
  shows "quiet s (ll_complete_close E t)"
proof (cases "ll_close_wait t")
  case None
  then show ?thesis using assms(2) by (simp add: ll_complete_close_def)
next
  case (Some dp)
  obtain d p where dp: "dp = (d, p)" by (cases dp)
  have "d = basen_ll_close_done_fn"
    using assms(2) Some dp
    by (cases d) (simp_all add: quiet_def closing_inv_def on_err_waiting_def)
  then show ?thesis
    using Some dp assms
    by (simp add: ll_complete_close_def q_ll_close_done quiet_wait)
qed

lemma quiet_if: "quiet s a \<Longrightarrow> quiet s b \<Longrightarrow> quiet s (if c then a else b)"
  by simp

lemma q_deferred_pass:
  assumes "env_quiet E" "quiet s t"
  shows "quiet s (snd (deferred_pass E t))"
proof -
  let ?s1 = "(if deferred_open t then basen_try_connect E (t\<lparr>deferred_open := False\<rparr>) else t)"
  have s1: "quiet s ?s1" using assms(2) by (simp add: q_try_connect)
  let ?s2 = "(if deferred_close ?s1
                     then basen_finish_close E (?s1\<lparr>deferred_close := False\<rparr>) else ?s1)"
  have "quiet s (?s1\<lparr>deferred_close := False\<rparr>)" using s1 by simp
  then have "quiet s (basen_finish_close E (?s1\<lparr>deferred_close := False\<rparr>))"
    by (rule q_finish_close[OF assms(1)])
  with s1 have s2: "quiet s ?s2" by presburger
  let ?t1 = "basen_unlock E (?s2\<lparr>deferred_read := False\<rparr>)"
  have t1: "quiet s ?t1" using s2 by (simp add: q_unlock)
  obtain r t2 where f: "filter_ll_write E (basen_read_data_handler E) False None ?t1 = (r, t2)"
    by (metis prod.exhaust)
  have t2: "quiet s t2"
    using q_filter_ll_write[OF assms(1) t1, where rc=False and b=None] by (simp add: f)
  have t3: "quiet s (on_ok t2 (\<lambda>t. (basen_lock E t)\<lparr>in_read := False\<rparr>))"
    by (rule q_on_ok[OF t2]) (simp add: q_lock)
  let ?s3 = "(if deferred_read ?s2
             then on_ok t2 (\<lambda>t. (basen_lock E t)\<lparr>in_read := False\<rparr>) else ?s2)"
  have s3: "quiet s ?s3" by (rule quiet_if[OF t3 s2])
  have eq: "snd (deferred_pass E t)
          = (if fault ?s1 \<noteq> None then ?s1
             else if deferred_read ?s2 \<and> state ?s2 \<noteq> BASEN_OPEN then ?s2 else ?s3)"
    unfolding deferred_pass_def Let_def f prod.case
    by (simp split del: if_split cong: if_cong add: if_distrib[of snd])
  show ?thesis
    unfolding eq by (intro quiet_if s1 s2 s3)
qed

lemma q_deferred_ops:
  assumes "env_quiet E"
  shows "quiet s t \<Longrightarrow> quiet s (deferred_ops E n t)"
proof (induction n arbitrary: t)
  case 0
  then show ?case by simp
next
  case (Suc n)
  obtain again t' where p: "deferred_pass E t = (again, t')"
    by (metis prod.exhaust)
  have t': "quiet s t'"
    using q_deferred_pass[OF assms Suc.prems] by (simp add: p)
  show ?case
    using t' Suc.IH[OF t'] by (simp add: p)
qed

lemma q_deferred_op:
  assumes "env_quiet E" "quiet s t"
  shows "quiet s (basen_deferred_op E n t)"
  unfolding basen_deferred_op_def
  by (intro q_on_ok q_deferred_ops[OF assms(1)] q_lock assms(2))
     (simp add: q_deref_and_unlock q_enables)

lemma q_fire:
  assumes "env_quiet E" "quiet s t" "ev_ok ev"
  shows "quiet s (fire E n ev t)"
  using assms
  by (cases ev)
     (simp_all add: fire_def q_write q_close q_free q_do_ref q_set_read_enable q_set_write_enable
        q_ll_read q_write_ready q_urgent q_complete_close q_timeout q_timer_stopped
        q_deferred_op q_output_ready q_start_timer)

lemma q_run:
  assumes "env_quiet E"
  shows "quiet s t \<Longrightarrow> \<forall>ev\<in>set evs. ev_ok ev \<Longrightarrow> quiet s (run E n evs t)"
  by (induction evs arbitrary: t) (simp_all add: q_fire[OF assms])

lemma on_err_waiting_ext [simp]: "on_err_waiting (snd (call_ext E c t)) = on_err_waiting t"
  by (simp add: on_err_waiting_def call_ext_eq)

lemma q_close_while_opening:
  assumes "state s = BASEN_IN_LL_OPEN \<or> state s = BASEN_IN_FILTER_OPEN"
      and "\<not> on_err_waiting s"
  shows "quiet s (snd (basen_close E cd p s))"
proof -
  have st: "state (basen_lock E s) = state s"
    by (simp add: leaf_defs)
  have c: "calls_in no_open_done s (basen_lock E s)"
    by (rule ci_lock[OF sys_nod calls_in_refl])
  have w: "\<not> on_err_waiting (basen_lock E s)"
    using assms(2) by (simp add: basen_lock_def)
  have q: "quiet s (basen_i_close E cd p (basen_lock E s))"
    by (rule q_i_close[OF c w])
  have e: "basen_close E cd p s
             = (0, on_ok (basen_deref (basen_i_close E cd p (basen_lock E s))) (basen_unlock E))"
    using assms(1) st by (auto simp: basen_close_def Let_def)
  show ?thesis
    by (simp add: e q_on_ok q_deref q q_unlock)
qed

text \<open>
  What does hold after a user close made in an opening state, when no close of a failed
  open is outstanding in the LL at that moment: neither the close nor any later
  sequence of events without an LL open-done callback and without a new user open
  calls \<open>open_done\<close>, provided the code run with the lock dropped does not itself bring
  the endpoint back into an opening state. (A run that stops on a fault calls nothing
  further.) So the LL's open-done callback is the only way to the call shown below.
\<close>

lemma no_open_done_without_ll_open_done:
  assumes "state s = BASEN_IN_LL_OPEN \<or> state s = BASEN_IN_FILTER_OPEN"
      and "\<not> on_err_waiting s"
      and "env_quiet E"
      and "\<forall>ev\<in>set evs. ev_ok ev"
  shows "\<forall>c\<in>set (added s (run E n evs (snd (basen_close E cd p s)))). \<not> is_open_done c"
proof -
  have "quiet s (run E n evs (snd (basen_close E cd p s)))"
    by (rule q_run[OF assms(3) q_close_while_opening[OF assms(1,2)] assms(4)])
  then have "set (added s (run E n evs (snd (basen_close E cd p s)))) \<subseteq> no_open_done"
    by (simp add: quiet_def calls_in_def)
  then show ?thesis
    by (auto simp: no_open_done_def)
qed

lemma env_quiet_slow: "env_quiet slow_env"
  by (simp add: env_quiet_def slow_env_def quiet_env_def)

lemma no_open_done_without_ll_open_done_example:
  "filter is_open_done
     (added opening_ep
        (run slow_env 2 [LLRead 0 (Some [1]), LLWriteReady, TimerFired, LLCloseDone, UFree]
           (snd (basen_close slow_env (Some 9) 0 opening_ep)))) = []"
proof -
  have h1: "state opening_ep = BASEN_IN_LL_OPEN \<or> state opening_ep = BASEN_IN_FILTER_OPEN"
    by code_simp
  have h2: "\<not> on_err_waiting opening_ep"
    by code_simp
  have h4: "\<forall>ev\<in>set [LLRead 0 (Some [1]), LLWriteReady, TimerFired, LLCloseDone, UFree].
              ev_ok ev"
    by simp
  show ?thesis
    using no_open_done_without_ll_open_done [OF h1 h2 env_quiet_slow h4, where cd="Some 9" and p=0 and n=2]
    by (simp add: filter_empty_conv)
qed

text \<open>
  C3: where the code departs from it. A client endpoint whose LL open is in progress is in
  OpeningLL with \<open>open_done\<close> installed, a reference count of 2 and one user reference.
  A user close on it is accepted: it returns 0 without a fault, leaves the endpoint in
  ClosingLL and leaves \<open>open_done\<close> installed. When the LL then completes the open,
  \<open>basen_ll_open_done\<close> does not look at the state: with an error it calls the
  \<open>open_done\<close> of the superseded open; with 0 (no filter here, so the handshake
  completes at once) it calls \<open>open_done\<close> too and leaves the endpoint Open while the LL
  is closing. The reference held for the open is given back twice, by \<open>basen_close\<close>
  and by \<open>basen_ll_open_done\<close>: when the LL's close completes the count is 0 and the
  structure is released while the user still holds its reference.
\<close>

theorem open_done_fires_after_superseding_close:
  "state opening_ep = BASEN_IN_LL_OPEN
   \<and> open_done opening_ep = Some 7 \<and> refcount opening_ep = 2 \<and> freeref opening_ep = 1
   \<and> fst (basen_close slow_env (Some 9) 0 opening_ep) = 0
   \<and> fault closed_early = None \<and> state closed_early = BASEN_IN_LL_CLOSE
   \<and> refcount closed_early = 2
   \<and> UsrOpenDone 7 5 0 \<in> set (added closed_early (run slow_env 1 [LLOpenDone 5] closed_early))
   \<and> UsrOpenDone 7 0 0 \<in> set (added closed_early (run slow_env 1 [LLOpenDone 0] closed_early))
   \<and> state (run slow_env 1 [LLOpenDone 0] closed_early) = BASEN_OPEN
   \<and> fault (run slow_env 1 [LLOpenDone 5, LLCloseDone, TimerStopped] closed_early) = None
   \<and> refcount (run slow_env 1 [LLOpenDone 5, LLCloseDone] closed_early) = 0
   \<and> freeref (run slow_env 1 [LLOpenDone 5, LLCloseDone, TimerStopped] closed_early) = 1
   \<and> freed (run slow_env 1 [LLOpenDone 5, LLCloseDone, TimerStopped] closed_early)"
  by code_simp

end
